theory Spec2Isabelle
  imports Complex_Main "HOL-Library.Log_Nat"
begin

section \<open>Object records and the lifecycle store\<close>

text \<open>
  Modelled from the spec: the object type and the store of the ACMI library, which the
  analyzers import and which is not part of the repository. An object carries the
  attributes the analyzers read (\<open>is_plane\<close>, \<open>is_missile\<close>, \<open>pilot()\<close>,
  \<open>coalition()\<close> and the \<open>Name\<close>, \<open>Country\<close>, \<open>Group\<close>, \<open>ID\<close>, \<open>Parent\<close> entries
  of \<open>json()\<close>) and the \<open>alive\<close> flag of the spec's ObjectRecord; the store is
  partitioned by that flag into the alive and the removed objects.
\<close>

record obj =
  o_id :: nat
  is_plane :: bool
  is_missile :: bool
  alive :: bool
  o_pilot :: "string option"
  o_coalition :: string
  o_name :: "string option"
  o_country :: "string option"
  o_group :: "string option"
  o_parent :: "nat option"

definition alive_objects :: "obj list \<Rightarrow> obj list" where
  "alive_objects acmi = filter alive acmi"

definition removed_objects :: "obj list \<Rightarrow> obj list" where
  "removed_objects acmi = filter (\<lambda>x. \<not> alive x) acmi"

text \<open>\<open>d.get(key, default)\<close> on an entry that may be missing.\<close>

definition get_or :: "'a option \<Rightarrow> 'a \<Rightarrow> 'a" where
  "get_or v d = (case v of None \<Rightarrow> d | Some x \<Rightarrow> x)"

text \<open>Python's \<open>a in b\<close> on strings: \<open>a\<close> occurs in \<open>b\<close> as a contiguous run.\<close>

fun starts_with :: "string \<Rightarrow> string \<Rightarrow> bool" where
  "starts_with [] ys = True"
| "starts_with (x # xs) [] = False"
| "starts_with (x # xs) (y # ys) = (x = y \<and> starts_with xs ys)"

fun str_in :: "string \<Rightarrow> string \<Rightarrow> bool" where
  "str_in xs [] = (xs = [])"
| "str_in xs (y # ys) = (starts_with xs (y # ys) \<or> str_in xs ys)"

section \<open>Per-pilot statistics\<close>

text \<open>
  One entry of \<open>pilot_stats\<close> in \<open>improved_acmi_analyzer.py\<close>. The dictionary keeps
  insertion order, which the apportionment loop depends on, so it is an association
  list with distinct keys.
\<close>

record stats =
  pilot_name :: string
  aircraft_type :: string
  coalition :: string
  country :: string
  grp :: string
  missiles_fired :: int
  air_to_air_kills :: int
  deaths :: int
  survived :: bool
  missile_types_used :: "string list"
  estimated_hit_rate :: rat

type_synonym pilot_stats = "(string \<times> stats) list"

definition has_key :: "'k \<Rightarrow> ('k \<times> 'v) list \<Rightarrow> bool" where
  "has_key k d = (k \<in> fst ` set d)"

text \<open>In-place update of the entry stored under an existing key.\<close>

definition upd :: "'k \<Rightarrow> ('v \<Rightarrow> 'v) \<Rightarrow> ('k \<times> 'v) list \<Rightarrow> ('k \<times> 'v) list" where
  "upd k f d = map (\<lambda>(k', v). if k' = k then (k', f v) else (k', v)) d"

text \<open>
  Reading \<open>d[k]\<close> from a \<open>defaultdict\<close> whose factory returns \<open>dflt\<close>, and changing
  \<open>d[k]\<close> in place: the item access creates the default entry at the end of the
  dictionary when the key is missing.
\<close>

definition lookup_or :: "'v \<Rightarrow> ('k \<times> 'v) list \<Rightarrow> 'k \<Rightarrow> 'v" where
  "lookup_or dflt d k = (case map_of d k of None \<Rightarrow> dflt | Some v \<Rightarrow> v)"

definition dd_set :: "'v \<Rightarrow> 'k \<Rightarrow> ('v \<Rightarrow> 'v) \<Rightarrow> ('k \<times> 'v) list \<Rightarrow> ('k \<times> 'v) list" where
  "dd_set dflt k f d = (if has_key k d then upd k f d else d @ [(k, f dflt)])"

text \<open>The value a \<open>defaultdict\<close> hands out for a key it does not hold.\<close>

definition default_stats :: stats where
  "default_stats =
     \<lparr> pilot_name = [], aircraft_type = [], coalition = [], country = [], grp = [],
       missiles_fired = 0, air_to_air_kills = 0, deaths = 0, survived = False,
       missile_types_used = [], estimated_hit_rate = 0 \<rparr>"

definition stats_of :: "pilot_stats \<Rightarrow> string \<Rightarrow> stats" where
  "stats_of ps p = lookup_or default_stats ps p"

text \<open>\<open>self.pilot_stats[p][field] = ...\<close>\<close>

definition dd_upd :: "string \<Rightarrow> (stats \<Rightarrow> stats) \<Rightarrow> pilot_stats \<Rightarrow> pilot_stats" where
  "dd_upd p f ps = dd_set default_stats p f ps"

subsection \<open>\<open>analyze_pilots\<close>\<close>

text \<open>The truthy pilot names of the alive aircraft (\<open>alive_pilots\<close>).\<close>

fun alive_pilots_of :: "obj list \<Rightarrow> string list" where
  "alive_pilots_of [] = []"
| "alive_pilots_of (a # rest) =
     (case o_pilot a of
        None \<Rightarrow> alive_pilots_of rest
      | Some p \<Rightarrow> if p = [] then alive_pilots_of rest else p # alive_pilots_of rest)"

definition init_stats :: "string \<Rightarrow> obj \<Rightarrow> string list \<Rightarrow> stats" where
  "init_stats p a alive_pilots =
     \<lparr> pilot_name = p,
       aircraft_type = get_or (o_name a) ''Unknown'',
       coalition = o_coalition a,
       country = get_or (o_country a) ''Unknown'',
       grp = get_or (o_group a) ''Unknown'',
       missiles_fired = 0,
       air_to_air_kills = 0,
       deaths = 0,
       survived = (p \<in> set alive_pilots),
       missile_types_used = [],
       estimated_hit_rate = 0 \<rparr>"

text \<open>One iteration of the loop over \<open>all_aircraft\<close>.\<close>

definition analyze_pilots_step :: "obj list \<Rightarrow> string list \<Rightarrow> pilot_stats \<Rightarrow> obj \<Rightarrow> pilot_stats" where
  "analyze_pilots_step alive_aircraft alive_pilots ps a =
     (case o_pilot a of
        None \<Rightarrow> ps
      | Some p \<Rightarrow>
          if p = [] then ps
          else
            let ps1 = (if \<not> has_key p ps then ps @ [(p, init_stats p a alive_pilots)] else ps)
            in if a \<notin> set alive_aircraft
               then dd_upd p (\<lambda>s. s\<lparr>deaths := deaths s + 1\<rparr>) ps1
               else ps1)"

definition analyze_pilots :: "pilot_stats \<Rightarrow> obj list \<Rightarrow> obj list \<Rightarrow> pilot_stats" where
  "analyze_pilots ps all_aircraft alive_aircraft =
     foldl (analyze_pilots_step alive_aircraft (alive_pilots_of alive_aircraft)) ps all_aircraft"

subsection \<open>Insertion-ordered \<open>defaultdict\<close>s\<close>

text \<open>\<open>d[k].append(v)\<close> on a \<open>defaultdict(list)\<close>.\<close>

fun dd_append :: "'k \<Rightarrow> 'v \<Rightarrow> ('k \<times> 'v list) list \<Rightarrow> ('k \<times> 'v list) list" where
  "dd_append k v [] = [(k, [v])]"
| "dd_append k v ((k', vs) # d) =
     (if k' = k then (k', vs @ [v]) # d else (k', vs) # dd_append k v d)"

text \<open>\<open>d[k] += 1\<close> on a \<open>defaultdict(int)\<close>.\<close>

fun dd_incr :: "'k \<Rightarrow> ('k \<times> int) list \<Rightarrow> ('k \<times> int) list" where
  "dd_incr k [] = [(k, 1)]"
| "dd_incr k ((k', n) # d) =
     (if k' = k then (k', n + 1) # d else (k', n) # dd_incr k d)"

definition dd_list :: "('k \<times> 'v list) list \<Rightarrow> 'k \<Rightarrow> 'v list" where
  "dd_list d k = (case map_of d k of None \<Rightarrow> [] | Some vs \<Rightarrow> vs)"

definition dd_int :: "('k \<times> int) list \<Rightarrow> 'k \<Rightarrow> int" where
  "dd_int d k = (case map_of d k of None \<Rightarrow> 0 | Some n \<Rightarrow> n)"

subsection \<open>Classification\<close>

definition air_to_air_missiles :: "(string \<times> string) list" where
  "air_to_air_missiles =
     [(''AIM_120'', ''AMRAAM''), (''AIM-9L'', ''Sidewinder''), (''AIM-9M'', ''Sidewinder''),
      (''AIM-9X'', ''Sidewinder''), (''AIM-7'', ''Sparrow''), (''R-27'', ''Alamo''),
      (''R-73'', ''Archer''), (''R-77'', ''Adder''), (''P_24R'', ''Apex'')]"

definition is_air_to_air_missile :: "obj \<Rightarrow> bool" where
  "is_air_to_air_missile missile =
     list_ex (\<lambda>aam. str_in aam (get_or (o_name missile) [])) (map fst air_to_air_missiles)"

definition is_fighter_aircraft :: "string \<Rightarrow> bool" where
  "is_fighter_aircraft t =
     list_ex (\<lambda>fighter. str_in fighter t)
       [''F-16'', ''F-4'', ''F-18'', ''FA-18'', ''MiG-21'', ''MiG-23'', ''MiG-25'', ''Su-27'']"

definition can_carry_missile :: "string \<Rightarrow> string \<Rightarrow> bool" where
  "can_carry_missile t missile_type =
     (let western_aircraft = [''F-16'', ''F-4'', ''F-18'', ''FA-18''];
          eastern_aircraft = [''MiG-21'', ''MiG-23'', ''MiG-25'', ''Su-27''];
          western_missiles = [''AIM_120'', ''AIM-9L'', ''AIM-9M'', ''AIM-9X'', ''AIM-7''];
          eastern_missiles = [''R-27'', ''R-73'', ''R-77'', ''P_24R''];
          is_western_aircraft = list_ex (\<lambda>ac. str_in ac t) western_aircraft;
          is_eastern_aircraft = list_ex (\<lambda>ac. str_in ac t) eastern_aircraft;
          is_western_missile = list_ex (\<lambda>m. str_in m missile_type) western_missiles;
          is_eastern_missile = list_ex (\<lambda>m. str_in m missile_type) eastern_missiles
      in (is_western_aircraft \<and> is_western_missile) \<or> (is_eastern_aircraft \<and> is_eastern_missile))"

subsection \<open>\<open>estimate_missile_usage\<close>\<close>

definition coalition_missiles_of :: "obj list \<Rightarrow> (string \<times> obj list) list" where
  "coalition_missiles_of ms = foldl (\<lambda>d m. dd_append (o_coalition m) m d) [] ms"

definition coalition_pilots_of :: "pilot_stats \<Rightarrow> (string \<times> string list) list" where
  "coalition_pilots_of ps =
     foldl (\<lambda>d (p, s). if is_fighter_aircraft (aircraft_type s) then dd_append (coalition s) p d else d)
       [] ps"

definition missile_types_of :: "obj list \<Rightarrow> (string \<times> int) list" where
  "missile_types_of ms = foldl (\<lambda>d m. dd_incr (get_or (o_name m) []) d) [] ms"

text \<open>The body of \<open>for i, pilot in enumerate(capable_pilots)\<close>.\<close>

definition credit :: "string \<Rightarrow> int \<Rightarrow> stats \<Rightarrow> stats" where
  "credit missile_type missiles_to_add s =
     s\<lparr> missiles_fired := missiles_fired s + missiles_to_add,
        missile_types_used :=
          (if missile_type \<notin> set (missile_types_used s)
           then missile_types_used s @ [missile_type] else missile_types_used s) \<rparr>"

fun distribute :: "string \<Rightarrow> int \<Rightarrow> int \<Rightarrow> nat \<Rightarrow> string list \<Rightarrow> pilot_stats \<Rightarrow> pilot_stats" where
  "distribute missile_type missiles_per_pilot remainder i [] ps = ps"
| "distribute missile_type missiles_per_pilot remainder i (p # rest) ps =
     distribute missile_type missiles_per_pilot remainder (Suc i) rest
       (dd_upd p (credit missile_type
                 (if int i < remainder then missiles_per_pilot + 1 else missiles_per_pilot)) ps)"

definition capable_pilots_of :: "pilot_stats \<Rightarrow> string list \<Rightarrow> string \<Rightarrow> string list" where
  "capable_pilots_of ps pilots missile_type =
     filter (\<lambda>p. can_carry_missile (aircraft_type (stats_of ps p)) missile_type) pilots"

text \<open>The body of \<open>for missile_type, count in missile_types.items()\<close>.\<close>

definition distribute_type :: "string list \<Rightarrow> pilot_stats \<Rightarrow> string \<times> int \<Rightarrow> pilot_stats" where
  "distribute_type pilots ps tc =
     (let missile_type = fst tc; count = snd tc;
          capable_pilots = capable_pilots_of ps pilots missile_type
      in if capable_pilots \<noteq> []
         then distribute missile_type
                (count div int (length capable_pilots)) (count mod int (length capable_pilots))
                0 capable_pilots ps
         else ps)"

text \<open>The body of \<open>for coalition, missiles in coalition_missiles.items()\<close>.\<close>

definition distribute_coalition ::
    "(string \<times> string list) list \<Rightarrow> pilot_stats \<Rightarrow> string \<times> obj list \<Rightarrow> pilot_stats" where
  "distribute_coalition coalition_pilots ps cm =
     (let pilots = dd_list coalition_pilots (fst cm)
      in if pilots = [] then ps
         else foldl (distribute_type pilots) ps (missile_types_of (snd cm)))"

definition estimate_missile_usage :: "pilot_stats \<Rightarrow> obj list \<Rightarrow> pilot_stats" where
  "estimate_missile_usage ps ms =
     foldl (distribute_coalition (coalition_pilots_of ps)) ps (coalition_missiles_of ms)"

section \<open>Floating-point arithmetic\<close>

text \<open>
  Python floats are IEEE 754 binary64 numbers. A finite float is a rational, and every
  operation returns the exact result rounded to the nearest number with a 53-bit
  significand, ties to the even significand. The exponent range is left unbounded: the
  analyzers only form floats from list lengths and from quotients of list lengths, which
  stay far inside it.
\<close>

definition pow2 :: "int \<Rightarrow> rat" where
  "pow2 e = (if 0 \<le> e then 2 ^ nat e else 1 / 2 ^ nat (- e))"

text \<open>Round to the nearest integer, halves to the even neighbour.\<close>

definition rne :: "rat \<Rightarrow> int" where
  "rne q =
     (let f = \<lfloor>q\<rfloor>; r = q - of_int f
      in if r < 1 / 2 then f else if 1 / 2 < r then f + 1 else if even f then f else f + 1)"

text \<open>The exponent \<open>e\<close> with \<open>2^e \<le> x < 2^(e+1)\<close>, for positive \<open>x\<close>.\<close>

definition binade :: "rat \<Rightarrow> int" where
  "binade x =
     (let e = bitlen (fst (quotient_of x)) - bitlen (snd (quotient_of x))
      in if pow2 e \<le> x then e else e - 1)"

definition round_double :: "rat \<Rightarrow> rat" where
  "round_double x =
     (if x = 0 then 0
      else let u = pow2 (binade \<bar>x\<bar> - 52) in sgn x * of_int (rne (\<bar>x\<bar> / u)) * u)"

text \<open>\<open>float(n)\<close>, \<open>n * x\<close> for an int and a float, \<open>a / b\<close> for two ints, \<open>int(x)\<close>.\<close>

definition float_of_int :: "int \<Rightarrow> rat" where
  "float_of_int n = round_double (of_int n)"

definition int_times_float :: "int \<Rightarrow> rat \<Rightarrow> rat" where
  "int_times_float n x = round_double (float_of_int n * x)"

definition int_truediv :: "int \<Rightarrow> int \<Rightarrow> rat" where
  "int_truediv a b = round_double (of_int a / of_int b)"

definition py_int :: "rat \<Rightarrow> int" where
  "py_int x = (if 0 \<le> x then \<lfloor>x\<rfloor> else \<lceil>x\<rceil>)"

text \<open>The literal \<open>0.3\<close>.\<close>

definition hit_rate_literal :: rat where
  "hit_rate_literal = round_double (3 / 10)"

section \<open>\<open>calculate_kill_estimates\<close>\<close>

datatype py_error = ZeroDivisionError

definition coalition_losses_of :: "obj list \<Rightarrow> (string \<times> int) list" where
  "coalition_losses_of removed_aircraft = foldl (\<lambda>d a. dd_incr (o_coalition a) d) [] removed_aircraft"

definition enemy_of :: "string \<Rightarrow> string" where
  "enemy_of pilot_coalition = (if pilot_coalition = ''Enemies'' then ''Allies'' else ''Enemies'')"

definition coalition_shooters_of :: "pilot_stats \<Rightarrow> string \<Rightarrow> string list" where
  "coalition_shooters_of ps pilot_coalition =
     map fst (filter (\<lambda>(p, s). coalition s = pilot_coalition \<and> missiles_fired s > 0) ps)"

definition total_coalition_missiles_of :: "pilot_stats \<Rightarrow> string \<Rightarrow> int" where
  "total_coalition_missiles_of ps pilot_coalition =
     sum_list (map (\<lambda>p. missiles_fired (stats_of ps p)) (coalition_shooters_of ps pilot_coalition))"

text \<open>
  One iteration of the loop over \<open>pilot_stats.items()\<close>. The source fixes the hit rate
  in the local variable \<open>estimated_hit_rate = 0.3\<close>; here it is the argument \<open>h\<close>, and
  the analyzer itself runs with \<open>hit_rate_literal\<close>. The true division raises
  \<open>ZeroDivisionError\<close> on a zero total.
\<close>

definition kill_step :: "rat \<Rightarrow> (string \<times> int) list \<Rightarrow> pilot_stats \<Rightarrow> string \<Rightarrow> py_error + pilot_stats" where
  "kill_step h coalition_losses ps pilot =
     (let st = stats_of ps pilot
      in if missiles_fired st = 0 then Inr ps
         else
           let pilot_coalition = coalition st;
               enemy_losses = dd_int coalition_losses (enemy_of pilot_coalition)
           in if enemy_losses = 0 then Inr ps
              else if coalition_shooters_of ps pilot_coalition = [] then Inr ps
              else
                let total_coalition_missiles = total_coalition_missiles_of ps pilot_coalition
                in if total_coalition_missiles = 0 then Inl ZeroDivisionError
                   else
                     let pilot_missile_share = int_truediv (missiles_fired st) total_coalition_missiles;
                         estimated_kills =
                           min (py_int (int_times_float (missiles_fired st) h))
                               (py_int (int_times_float enemy_losses pilot_missile_share))
                     in Inr (upd pilot
                               (\<lambda>s. s\<lparr> air_to_air_kills := estimated_kills,
                                       estimated_hit_rate := (if missiles_fired s > 0 then h else 0) \<rparr>)
                               ps))"

fun kill_loop :: "rat \<Rightarrow> (string \<times> int) list \<Rightarrow> string list \<Rightarrow> pilot_stats \<Rightarrow> py_error + pilot_stats" where
  "kill_loop h cl [] ps = Inr ps"
| "kill_loop h cl (p # rest) ps =
     (case kill_step h cl ps p of Inl e \<Rightarrow> Inl e | Inr ps' \<Rightarrow> kill_loop h cl rest ps')"

definition calculate_kill_estimates :: "rat \<Rightarrow> pilot_stats \<Rightarrow> obj list \<Rightarrow> py_error + pilot_stats" where
  "calculate_kill_estimates h ps removed_aircraft =
     kill_loop h (coalition_losses_of removed_aircraft) (map fst ps) ps"

text \<open>
  The loop changes one entry per iteration and reads only the coalition and the missile
  count of the others, which it never changes. \<open>kill_entry\<close> is what an iteration does
  to the entry it visits, and \<open>fire_table\<close> is the part of the dictionary the
  iterations read.
\<close>

definition kill_entry :: "rat \<Rightarrow> (string \<times> int) list \<Rightarrow> pilot_stats \<Rightarrow> stats \<Rightarrow> stats" where
  "kill_entry h coalition_losses ps s =
     (if missiles_fired s = 0 then s
      else
        let enemy_losses = dd_int coalition_losses (enemy_of (coalition s))
        in if enemy_losses = 0 then s
           else if coalition_shooters_of ps (coalition s) = [] then s
           else s\<lparr> air_to_air_kills :=
                      min (py_int (int_times_float (missiles_fired s) h))
                          (py_int (int_times_float enemy_losses
                             (int_truediv (missiles_fired s) (total_coalition_missiles_of ps (coalition s))))),
                   estimated_hit_rate := (if missiles_fired s > 0 then h else 0) \<rparr>)"

definition fire_table :: "pilot_stats \<Rightarrow> (string \<times> string \<times> int) list" where
  "fire_table ps = map (\<lambda>(p, s). (p, coalition s, missiles_fired s)) ps"

section \<open>\<open>analyze_combat_data\<close>\<close>

definition alive_aircraft_of :: "obj list \<Rightarrow> obj list" where
  "alive_aircraft_of acmi = filter is_plane (alive_objects acmi)"

definition removed_aircraft_of :: "obj list \<Rightarrow> obj list" where
  "removed_aircraft_of acmi = filter is_plane (removed_objects acmi)"

definition a2a_missiles_of :: "obj list \<Rightarrow> obj list" where
  "a2a_missiles_of acmi = filter is_air_to_air_missile (filter is_missile (removed_objects acmi))"

definition pilots_after_analyze_pilots :: "obj list \<Rightarrow> pilot_stats" where
  "pilots_after_analyze_pilots acmi =
     analyze_pilots [] (alive_aircraft_of acmi @ removed_aircraft_of acmi) (alive_aircraft_of acmi)"

definition pilots_after_estimate :: "obj list \<Rightarrow> pilot_stats" where
  "pilots_after_estimate acmi =
     estimate_missile_usage (pilots_after_analyze_pilots acmi) (a2a_missiles_of acmi)"

definition analyze_combat_data_with :: "rat \<Rightarrow> obj list \<Rightarrow> py_error + pilot_stats" where
  "analyze_combat_data_with h acmi =
     calculate_kill_estimates h (pilots_after_estimate acmi) (removed_aircraft_of acmi)"

definition analyze_combat_data :: "obj list \<Rightarrow> py_error + pilot_stats" where
  "analyze_combat_data acmi = analyze_combat_data_with hit_rate_literal acmi"

section \<open>The first analyzer, \<open>acmi_analyzer.py\<close>\<close>

text \<open>
  One entry of its \<open>pilot_stats\<close>. The keys \<open>kills_list\<close>, \<open>death_cause\<close>,
  \<open>flight_time\<close>, \<open>max_altitude\<close> and \<open>max_speed\<close> are written once when the entry is
  created and never read or changed, and are left out.
\<close>

record bstats =
  b_pilot_name :: string
  b_aircraft_type :: string
  b_coalition :: string
  b_country :: string
  b_grp :: string
  b_missiles_fired :: int
  b_missiles_hit :: int
  b_air_to_air_kills :: int
  b_deaths :: int
  b_missiles_fired_list :: "string list"

definition b_default_stats :: bstats where
  "b_default_stats =
     \<lparr> b_pilot_name = [], b_aircraft_type = [], b_coalition = [], b_country = [], b_grp = [],
       b_missiles_fired = 0, b_missiles_hit = 0, b_air_to_air_kills = 0, b_deaths = 0,
       b_missiles_fired_list = [] \<rparr>"

definition b_stats_of :: "(string \<times> bstats) list \<Rightarrow> string \<Rightarrow> bstats" where
  "b_stats_of ps p = lookup_or b_default_stats ps p"

definition b_dd_upd :: "string \<Rightarrow> (bstats \<Rightarrow> bstats) \<Rightarrow> (string \<times> bstats) list \<Rightarrow> (string \<times> bstats) list" where
  "b_dd_upd p f ps = dd_set b_default_stats p f ps"

definition all_objects_of :: "obj list \<Rightarrow> obj list" where
  "all_objects_of acmi = alive_objects acmi @ removed_objects acmi"

text \<open>\<open>analyze_objects\<close> returns the aircraft and the missiles among all objects.\<close>

definition analyze_objects :: "obj list \<Rightarrow> obj list \<times> obj list" where
  "analyze_objects acmi =
     (filter is_plane (all_objects_of acmi),
      filter (\<lambda>x. \<not> is_plane x \<and> is_missile x) (all_objects_of acmi))"

definition b_init_stats :: "string \<Rightarrow> obj \<Rightarrow> bstats" where
  "b_init_stats p plane =
     \<lparr> b_pilot_name = p,
       b_aircraft_type = get_or (o_name plane) ''Unknown'',
       b_coalition = o_coalition plane,
       b_country = get_or (o_country plane) ''Unknown'',
       b_grp = get_or (o_group plane) ''Unknown'',
       b_missiles_fired = 0, b_missiles_hit = 0, b_air_to_air_kills = 0, b_deaths = 0,
       b_missiles_fired_list = [] \<rparr>"

definition analyze_aircraft_step :: "obj list \<Rightarrow> (string \<times> bstats) list \<Rightarrow> obj \<Rightarrow> (string \<times> bstats) list" where
  "analyze_aircraft_step removed ps plane =
     (case o_pilot plane of
        None \<Rightarrow> ps
      | Some p \<Rightarrow>
          if p = [] then ps
          else
            let ps1 = (if \<not> has_key p ps then ps @ [(p, b_init_stats p plane)] else ps)
            in if plane \<in> set removed
               then b_dd_upd p (\<lambda>s. s\<lparr>b_deaths := b_deaths s + 1\<rparr>) ps1
               else ps1)"

definition analyze_aircraft :: "obj list \<Rightarrow> (string \<times> bstats) list \<Rightarrow> obj list \<Rightarrow> (string \<times> bstats) list" where
  "analyze_aircraft acmi ps aircraft = foldl (analyze_aircraft_step (removed_objects acmi)) ps aircraft"

text \<open>\<open>find_pilot_by_object_id\<close>: the pilot of the first aircraft that carries the id.\<close>

fun find_pilot_by_object_id :: "obj list \<Rightarrow> nat \<Rightarrow> string option" where
  "find_pilot_by_object_id [] object_id = None"
| "find_pilot_by_object_id (x # rest) object_id =
     (if o_id x = object_id \<and> is_plane x then o_pilot x
      else find_pilot_by_object_id rest object_id)"

definition analyze_missiles_step :: "obj list \<Rightarrow> (string \<times> bstats) list \<Rightarrow> obj \<Rightarrow> (string \<times> bstats) list" where
  "analyze_missiles_step acmi ps missile =
     (let missile_name = get_or (o_name missile) []
      in if list_ex (\<lambda>aam. str_in aam missile_name)
              [''AIM_120'', ''AIM-9L'', ''AIM-9M'', ''AIM-9X'', ''AIM-7'', ''R-27'', ''R-73'', ''R-77'', ''P_24R'']
         then (case o_parent missile of
                 None \<Rightarrow> ps
               | Some parent_id \<Rightarrow>
                   if parent_id = 0 then ps
                   else (case find_pilot_by_object_id (all_objects_of acmi) parent_id of
                           None \<Rightarrow> ps
                         | Some parent_pilot \<Rightarrow>
                             if parent_pilot = [] then ps
                             else b_dd_upd parent_pilot
                                    (\<lambda>s. s\<lparr> b_missiles_fired := b_missiles_fired s + 1,
                                            b_missiles_fired_list := b_missiles_fired_list s @ [missile_name] \<rparr>)
                                    ps))
         else ps)"

definition analyze_missiles :: "obj list \<Rightarrow> (string \<times> bstats) list \<Rightarrow> obj list \<Rightarrow> (string \<times> bstats) list" where
  "analyze_missiles acmi ps missiles = foldl (analyze_missiles_step acmi) ps missiles"

text \<open>
  One iteration of the loop of \<open>calculate_kill_statistics\<close>. In
  \<open>min(fired // 2, losses // shooters or 1)\<close> the \<open>or\<close> binds weaker than \<open>//\<close>: the second
  argument is the quotient, or 1 when the quotient is 0.
\<close>

definition b_shooters :: "(string \<times> bstats) list \<Rightarrow> string \<Rightarrow> int" where
  "b_shooters ps c = int (length (filter (\<lambda>(p, s). b_coalition s = c \<and> b_missiles_fired s > 0) ps))"

definition b_enemy_losses :: "obj list \<Rightarrow> string \<Rightarrow> int" where
  "b_enemy_losses removed_aircraft c =
     int (length (filter (\<lambda>x. o_coalition x = enemy_of c) removed_aircraft))"

definition b_kill_step :: "obj list \<Rightarrow> (string \<times> bstats) list \<Rightarrow> string \<Rightarrow> py_error + (string \<times> bstats) list" where
  "b_kill_step removed_aircraft ps pilot =
     (let st = b_stats_of ps pilot
      in if b_missiles_fired st > 0
         then
           let enemy_losses = b_enemy_losses removed_aircraft (b_coalition st)
           in if enemy_losses > 0 \<and> b_missiles_fired st > 0
              then
                let shooters = b_shooters ps (b_coalition st)
                in if shooters = 0 then Inl ZeroDivisionError
                   else
                     let q = enemy_losses div shooters;
                         estimated_kills = min (b_missiles_fired st div 2) (if q \<noteq> 0 then q else 1)
                     in Inr (upd pilot (\<lambda>s. s\<lparr>b_air_to_air_kills := max 0 estimated_kills\<rparr>) ps)
              else Inr ps
         else Inr ps)"

fun b_kill_loop :: "obj list \<Rightarrow> string list \<Rightarrow> (string \<times> bstats) list \<Rightarrow> py_error + (string \<times> bstats) list" where
  "b_kill_loop ra [] ps = Inr ps"
| "b_kill_loop ra (p # rest) ps =
     (case b_kill_step ra ps p of Inl e \<Rightarrow> Inl e | Inr ps' \<Rightarrow> b_kill_loop ra rest ps')"

definition calculate_kill_statistics :: "obj list \<Rightarrow> (string \<times> bstats) list \<Rightarrow> py_error + (string \<times> bstats) list" where
  "calculate_kill_statistics acmi ps =
     b_kill_loop (filter is_plane (removed_objects acmi)) (map fst ps) ps"

text \<open>What an iteration does to the entry it visits, and what the iterations read.\<close>

definition b_kill_entry :: "obj list \<Rightarrow> (string \<times> bstats) list \<Rightarrow> bstats \<Rightarrow> bstats" where
  "b_kill_entry removed_aircraft ps s =
     (if b_missiles_fired s > 0 \<and> b_enemy_losses removed_aircraft (b_coalition s) > 0
      then
        let q = b_enemy_losses removed_aircraft (b_coalition s) div b_shooters ps (b_coalition s)
        in s\<lparr>b_air_to_air_kills := max 0 (min (b_missiles_fired s div 2) (if q \<noteq> 0 then q else 1))\<rparr>
      else s)"

definition b_fire_table :: "(string \<times> bstats) list \<Rightarrow> (string \<times> string \<times> int) list" where
  "b_fire_table ps = map (\<lambda>(p, s). (p, b_coalition s, b_missiles_fired s)) ps"

definition b_pilots_after_missiles :: "obj list \<Rightarrow> (string \<times> bstats) list" where
  "b_pilots_after_missiles acmi =
     analyze_missiles acmi (analyze_aircraft acmi [] (fst (analyze_objects acmi)))
       (snd (analyze_objects acmi))"

definition run_analysis :: "obj list \<Rightarrow> py_error + (string \<times> bstats) list" where
  "run_analysis acmi = calculate_kill_statistics acmi (b_pilots_after_missiles acmi)"


section \<open>Example sessions\<close>


text \<open>A dictionary of pilots: distinct keys, none of them empty.\<close>

definition keys_ok :: "(string \<times> 'v) list \<Rightarrow> bool" where
  "keys_ok d \<longleftrightarrow> distinct (map fst d) \<and> (\<forall>k. has_key k d \<longrightarrow> k \<noteq> [])"

text \<open>
  A session with three fighters and a transport. Pilot A survives; B, the transport
  pilot T and two aircraft of the other side are removed. Ten Sidewinders were fired by
  A's coalition and one more is still in flight when the recording ends; the other side
  fired one R-73.
\<close>

definition mk_obj :: "nat \<Rightarrow> bool \<Rightarrow> bool \<Rightarrow> bool \<Rightarrow> string option \<Rightarrow> string \<Rightarrow> string \<Rightarrow> obj" where
  "mk_obj i plane missile alv p c n =
     \<lparr> o_id = i, is_plane = plane, is_missile = missile, alive = alv, o_pilot = p,
       o_coalition = c, o_name = Some n, o_country = None, o_group = None, o_parent = None \<rparr>"

definition aim9 :: "nat \<Rightarrow> bool \<Rightarrow> obj" where
  "aim9 i alv = mk_obj i False True alv None ''Allies'' ''AIM-9M''"

definition demo_session :: "obj list" where
  "demo_session =
     [mk_obj 1 True False True (Some ''A'') ''Allies'' ''F-16C'',
      mk_obj 2 True False False (Some ''B'') ''Allies'' ''F-16C'',
      mk_obj 3 True False False (Some ''E'') ''Enemies'' ''MiG-21'',
      mk_obj 4 True False False (Some ''F'') ''Enemies'' ''MiG-21'',
      mk_obj 5 True False False (Some ''T'') ''Allies'' ''C-130'',
      aim9 10 False, aim9 11 False, aim9 12 False, aim9 13 False, aim9 14 False,
      aim9 15 False, aim9 16 False, aim9 17 False, aim9 18 False, aim9 19 False,
      aim9 20 True,
      mk_obj 21 False True False None ''Enemies'' ''R-73'']"

text \<open>
  Two eligible pilots of coalition Blue and five Sidewinders without parent data. In the
  first recording pilot B's aircraft is listed before pilot A's, in the second after it.
\<close>

definition blue_f16 :: "nat \<Rightarrow> string \<Rightarrow> obj" where
  "blue_f16 i p = mk_obj i True False True (Some p) ''Blue'' ''F-16C''"

definition blue_aim9 :: "nat \<Rightarrow> obj" where
  "blue_aim9 i = mk_obj i False True False None ''Blue'' ''AIM-9M''"

definition b_first_session :: "obj list" where
  "b_first_session =
     [blue_f16 1 ''B'', blue_f16 2 ''A'',
      blue_aim9 3, blue_aim9 4, blue_aim9 5, blue_aim9 6, blue_aim9 7]"

definition a_first_session :: "obj list" where
  "a_first_session =
     [blue_f16 1 ''A'', blue_f16 2 ''B'',
      blue_aim9 3, blue_aim9 4, blue_aim9 5, blue_aim9 6, blue_aim9 7]"

text \<open>
  The invariant of the pilots that fly no fighter: nothing fired, no kill, no munition
  type.
\<close>

definition nonfighters_idle :: "pilot_stats \<Rightarrow> bool" where
  "nonfighters_idle ps \<longleftrightarrow>
     (\<forall>(p, s)\<in>set ps. \<not> is_fighter_aircraft (aircraft_type s) \<longrightarrow>
        missiles_fired s = 0 \<and> air_to_air_kills s = 0 \<and> missile_types_used s = [])"

section \<open>The report\<close>

text \<open>
  The numbers \<open>generate_report\<close> prints under SUMMARY STATISTICS, and the rows of its
  coalition breakdown. The JSON export writes \<open>pilot_stats\<close> itself.
\<close>

record coalition_row =
  row_pilots :: int
  row_survivors :: int
  row_missiles :: int
  row_kills :: int
  row_deaths :: int

record summary =
  total_pilots :: int
  survivors :: int
  total_missiles :: int
  total_kills :: int
  total_deaths :: int
  coalitions :: "(string \<times> coalition_row) list"

definition add_pilot :: "stats \<Rightarrow> coalition_row \<Rightarrow> coalition_row" where
  "add_pilot s r =
     r\<lparr> row_pilots := row_pilots r + 1,
        row_survivors := (if survived s then row_survivors r + 1 else row_survivors r),
        row_missiles := row_missiles r + missiles_fired s,
        row_kills := row_kills r + air_to_air_kills s,
        row_deaths := row_deaths r + deaths s \<rparr>"

definition breakdown_step :: "(string \<times> coalition_row) list \<Rightarrow> string \<times> stats \<Rightarrow> (string \<times> coalition_row) list" where
  "breakdown_step d e =
     (let c = coalition (snd e);
          d1 = (if \<not> has_key c d
                then d @ [(c, \<lparr>row_pilots = 0, row_survivors = 0, row_missiles = 0, row_kills = 0, row_deaths = 0\<rparr>)]
                else d)
      in upd c (add_pilot (snd e)) d1)"

definition summary_of :: "pilot_stats \<Rightarrow> summary" where
  "summary_of ps =
     \<lparr> total_pilots = int (length ps),
       survivors = int (length (filter (\<lambda>(p, s). survived s) ps)),
       total_missiles = sum_list (map (\<lambda>(p, s). missiles_fired s) ps),
       total_kills = sum_list (map (\<lambda>(p, s). air_to_air_kills s) ps),
       total_deaths = sum_list (map (\<lambda>(p, s). deaths s) ps),
       coalitions = foldl breakdown_step [] ps \<rparr>"

text \<open>The capable pilots of the group a munition falls into.\<close>

definition group_capable :: "pilot_stats \<Rightarrow> obj \<Rightarrow> string list" where
  "group_capable ps m =
     capable_pilots_of ps (dd_list (coalition_pilots_of ps) (o_coalition m)) (get_or (o_name m) [])"

text \<open>
  One fighter pilot and three removed munitions nobody can be credited with: an R-73 of
  the pilot's own coalition, which no F-16 carries, a Sidewinder of a coalition without
  pilots, and a munition whose name matches no air-to-air designator. The second
  recording holds the pilot alone.
\<close>

definition lone_pilot_session :: "obj list" where
  "lone_pilot_session = [mk_obj 1 True False True (Some ''A'') ''Allies'' ''F-16C'']"

definition dropped_session :: "obj list" where
  "dropped_session =
     [mk_obj 1 True False True (Some ''A'') ''Allies'' ''F-16C'',
      mk_obj 2 False True False None ''Allies'' ''R-73'',
      mk_obj 3 False True False None ''Neutrals'' ''AIM-9M'',
      mk_obj 4 False True False None ''Allies'' ''Unknown rocket'']"

section \<open>Properties: dictionaries\<close>

lemma map_of_upd: "map_of (upd k f d) k' = (if k' = k then map_option f (map_of d k) else map_of d k')"
  by (induction d) (auto simp: upd_def)

lemma keys_upd: "map fst (upd k f d) = map fst d"
  by (induction d) (auto simp: upd_def)

lemma has_key_map_of: "has_key k d \<longleftrightarrow> map_of d k \<noteq> None"
  by (simp add: has_key_def map_of_eq_None_iff)

lemma lookup_or_upd:
  "lookup_or dflt (upd k f d) k' = (if k' = k \<and> has_key k d then f (lookup_or dflt d k) else lookup_or dflt d k')"
  by (auto simp: lookup_or_def map_of_upd has_key_map_of split: option.splits)

lemma lookup_or_append_new:
  "\<not> has_key k d \<Longrightarrow> lookup_or dflt (d @ [(k, v)]) k' = (if k' = k then v else lookup_or dflt d k')"
  by (auto simp: lookup_or_def has_key_map_of map_add_def split: option.splits)

lemma lookup_or_dd_set:
  "lookup_or dflt (dd_set dflt k f d) k' = (if k' = k then f (lookup_or dflt d k) else lookup_or dflt d k')"
proof (cases "has_key k d")
  case True
  then show ?thesis by (simp add: dd_set_def lookup_or_upd)
next
  case False
  then have "lookup_or dflt d k = dflt"
    by (simp add: lookup_or_def has_key_map_of)
  with False show ?thesis by (simp add: dd_set_def lookup_or_append_new)
qed

lemma stats_of_upd:
  "stats_of (upd k f ps) k' = (if k' = k \<and> has_key k ps then f (stats_of ps k) else stats_of ps k')"
  by (simp add: stats_of_def lookup_or_upd)

lemma stats_of_append_new:
  "\<not> has_key k ps \<Longrightarrow> stats_of (ps @ [(k, v)]) k' = (if k' = k then v else stats_of ps k')"
  by (simp add: stats_of_def lookup_or_append_new)

lemma stats_of_dd_upd:
  "stats_of (dd_upd k f ps) k' = (if k' = k then f (stats_of ps k) else stats_of ps k')"
  by (simp add: stats_of_def dd_upd_def lookup_or_dd_set)

lemma distribute_other:
  "p \<notin> set cps \<Longrightarrow> stats_of (distribute mt mpp r i cps ps) p = stats_of ps p"
  by (induction cps arbitrary: i ps) (simp_all add: stats_of_dd_upd)

lemma distribute_nth:
  "distinct cps \<Longrightarrow> j < length cps \<Longrightarrow>
   stats_of (distribute mt mpp r i cps ps) (cps ! j) =
   credit mt (if int (i + j) < r then mpp + 1 else mpp) (stats_of ps (cps ! j))"
proof (induction cps arbitrary: i j ps)
  case Nil
  then show ?case by simp
next
  case (Cons p rest)
  show ?case
  proof (cases j)
    case 0
    with Cons.prems show ?thesis
      by (simp add: distribute_other stats_of_dd_upd)
  next
    case (Suc j')
    with Cons.prems have ne: "rest ! j' \<noteq> p" by auto
    from Suc Cons.prems have "distinct rest" "j' < length rest" by simp_all
    from Cons.IH[OF this] ne Suc show ?thesis
      by (simp add: stats_of_dd_upd)
  qed
qed


lemma has_key_append: "has_key k (d @ e) \<longleftrightarrow> has_key k d \<or> has_key k e"
  by (auto simp: has_key_def)

lemma has_key_upd: "has_key k' (upd k f d) \<longleftrightarrow> has_key k' d"
  by (simp add: has_key_def keys_upd flip: set_map)

lemma keys_dd_set: "map fst (dd_set dflt k f d) = (if has_key k d then map fst d else map fst d @ [k])"
  by (simp add: dd_set_def keys_upd)

lemma distinct_dd_set: "distinct (map fst d) \<Longrightarrow> distinct (map fst (dd_set dflt k f d))"
  by (auto simp: keys_dd_set has_key_def)

lemma has_key_dd_set: "has_key k' (dd_set dflt k f d) \<longleftrightarrow> k' = k \<or> has_key k' d"
  by (auto simp: dd_set_def has_key_upd has_key_append) (auto simp: has_key_def)

lemma lookup_or_in:
  "distinct (map fst d) \<Longrightarrow> (k, v) \<in> set d \<Longrightarrow> lookup_or dflt d k = v"
  by (simp add: lookup_or_def)

lemma stats_of_in: "distinct (map fst ps) \<Longrightarrow> (p, s) \<in> set ps \<Longrightarrow> stats_of ps p = s"
  by (simp add: stats_of_def lookup_or_in)

lemma has_key_lookup: "has_key k d \<Longrightarrow> (k, lookup_or dflt d k) \<in> set d"
  by (auto simp: has_key_map_of lookup_or_def dest: map_of_SomeD)

section \<open>Properties: apportionment\<close>



section \<open>Properties: the improved analyzer\<close>

subsection \<open>analyze_pilots\<close>

lemma analyze_pilots_step_deaths:
  "deaths (stats_of (analyze_pilots_step aa ap ps a) q) =
   deaths (stats_of ps q) + (if o_pilot a = Some q \<and> q \<noteq> [] \<and> a \<notin> set aa then 1 else 0)"
proof (cases "o_pilot a")
  case None
  then show ?thesis by (simp add: analyze_pilots_step_def)
next
  case (Some p)
  have new: "deaths (stats_of (ps @ [(p, init_stats p a ap)]) q) = deaths (stats_of ps q)" if "\<not> has_key p ps"
    using that by (auto simp: stats_of_append_new init_stats_def)
       (simp add: stats_of_def lookup_or_def has_key_map_of default_stats_def)
  show ?thesis
    using Some new by (auto simp: analyze_pilots_step_def Let_def stats_of_dd_upd)
qed

lemma analyze_pilots_deaths:
  "deaths (stats_of (analyze_pilots ps all aa) q) =
   deaths (stats_of ps q) + int (length (filter (\<lambda>a. o_pilot a = Some q \<and> q \<noteq> [] \<and> a \<notin> set aa) all))"
  unfolding analyze_pilots_def
  by (induction all arbitrary: ps) (simp_all add: analyze_pilots_step_deaths)

lemma analyze_pilots_step_distinct:
  "distinct (map fst ps) \<Longrightarrow> distinct (map fst (analyze_pilots_step aa ap ps a))"
  by (auto simp: analyze_pilots_step_def Let_def dd_upd_def keys_dd_set has_key_append has_key_def
      split: option.splits)

lemma analyze_pilots_distinct:
  "distinct (map fst ps) \<Longrightarrow> distinct (map fst (analyze_pilots ps all aa))"
  unfolding analyze_pilots_def
  by (induction all arbitrary: ps) (simp_all add: analyze_pilots_step_distinct)

lemma analyze_pilots_step_keys:
  "has_key q (analyze_pilots_step aa ap ps a) \<longleftrightarrow> has_key q ps \<or> (o_pilot a = Some q \<and> q \<noteq> [])"
  by (auto simp: analyze_pilots_step_def Let_def dd_upd_def has_key_dd_set has_key_append
      split: option.splits) (auto simp: has_key_def)

lemma analyze_pilots_keys:
  "has_key q (analyze_pilots ps all aa) \<longleftrightarrow> has_key q ps \<or> (\<exists>a\<in>set all. o_pilot a = Some q \<and> q \<noteq> [])"
  unfolding analyze_pilots_def
  by (induction all arbitrary: ps) (auto simp: analyze_pilots_step_keys)

lemma empty_stats_of: "stats_of [] q = default_stats"
  by (simp add: stats_of_def lookup_or_def)

lemma pilots_after_analyze_pilots_deaths:
  "q \<noteq> [] \<Longrightarrow> deaths (stats_of (pilots_after_analyze_pilots acmi) q) =
   int (length (filter (\<lambda>a. is_plane a \<and> o_pilot a = Some q) (removed_objects acmi)))"
proof -
  assume q: "q \<noteq> []"
  have 1: "filter (\<lambda>a. o_pilot a = Some q \<and> q \<noteq> [] \<and> a \<notin> set (alive_aircraft_of acmi)) (alive_aircraft_of acmi) = []"
    by (simp add: filter_empty_conv)
  have "a \<notin> set (alive_aircraft_of acmi)" if "a \<in> set (removed_aircraft_of acmi)" for a
    using that by (auto simp: alive_aircraft_of_def removed_aircraft_of_def alive_objects_def removed_objects_def)
  then have 2: "filter (\<lambda>a. o_pilot a = Some q \<and> q \<noteq> [] \<and> a \<notin> set (alive_aircraft_of acmi)) (removed_aircraft_of acmi)
      = filter (\<lambda>a. o_pilot a = Some q) (removed_aircraft_of acmi)"
    using q by (intro filter_cong) auto
  have 3: "filter (\<lambda>a. o_pilot a = Some q) (removed_aircraft_of acmi)
       = filter (\<lambda>a. is_plane a \<and> o_pilot a = Some q) (removed_objects acmi)"
    by (simp add: removed_aircraft_of_def conj_commute)
  show ?thesis
    unfolding pilots_after_analyze_pilots_def analyze_pilots_deaths filter_append 1 2 3
    by (simp add: empty_stats_of default_stats_def)
qed

subsection \<open>estimate_missile_usage: frame\<close>

lemma distribute_frame:
  assumes "\<And>mt k s. g (credit mt k s) = g s"
  shows "g (stats_of (distribute mt mpp r i cps ps) p) = g (stats_of ps p)"
  by (induction cps arbitrary: i ps) (simp_all add: stats_of_dd_upd assms)

lemma distribute_type_frame:
  assumes "\<And>mt k s. g (credit mt k s) = g s"
  shows "g (stats_of (distribute_type pilots ps tc) p) = g (stats_of ps p)"
  by (simp add: distribute_type_def Let_def distribute_frame[where g = g, OF assms])

lemma foldl_distribute_type_frame:
  assumes "\<And>mt k s. g (credit mt k s) = g s"
  shows "g (stats_of (foldl (distribute_type pilots) ps tcs) p) = g (stats_of ps p)"
  by (induction tcs arbitrary: ps) (simp_all add: distribute_type_frame[where g = g, OF assms])

lemma distribute_coalition_frame:
  assumes "\<And>mt k s. g (credit mt k s) = g s"
  shows "g (stats_of (distribute_coalition cp ps cm) p) = g (stats_of ps p)"
  by (simp add: distribute_coalition_def Let_def foldl_distribute_type_frame[where g = g, OF assms])

lemma foldl_distribute_coalition_frame:
  assumes "\<And>mt k s. g (credit mt k s) = g s"
  shows "g (stats_of (foldl (distribute_coalition cp) ps cms) p) = g (stats_of ps p)"
  by (induction cms arbitrary: ps) (simp_all add: distribute_coalition_frame[where g = g, OF assms])

lemma estimate_missile_usage_frame:
  assumes "\<And>mt k s. g (credit mt k s) = g s"
  shows "g (stats_of (estimate_missile_usage ps ms) p) = g (stats_of ps p)"
  by (simp add: estimate_missile_usage_def foldl_distribute_coalition_frame[where g = g, OF assms])

lemma estimate_deaths: "deaths (stats_of (estimate_missile_usage ps ms) p) = deaths (stats_of ps p)"
  by (rule estimate_missile_usage_frame) (simp add: credit_def)

subsection \<open>estimate_missile_usage: keys\<close>

lemma distribute_keys:
  "\<forall>p\<in>set cps. has_key p ps \<Longrightarrow> map fst (distribute mt mpp r i cps ps) = map fst ps"
proof (induction cps arbitrary: i ps)
  case Nil
  then show ?case by simp
next
  case (Cons p rest)
  have k: "map fst (dd_upd p f ps) = map fst ps" for f
    using Cons.prems by (simp add: dd_upd_def keys_dd_set)
  have "\<forall>q\<in>set rest. has_key q (dd_upd p f ps)" for f
    using Cons.prems by (simp add: dd_upd_def has_key_dd_set)
  from Cons.IH[OF this] show ?case by (simp add: k)
qed

lemma has_key_cong: "map fst d = map fst e \<Longrightarrow> has_key k d = has_key k e"
  by (metis has_key_def set_map)

lemma distribute_type_keys:
  "\<forall>p\<in>set pilots. has_key p ps \<Longrightarrow> map fst (distribute_type pilots ps tc) = map fst ps"
  by (simp add: distribute_type_def Let_def capable_pilots_of_def distribute_keys)

lemma foldl_distribute_type_keys:
  "\<forall>p\<in>set pilots. has_key p ps \<Longrightarrow> map fst (foldl (distribute_type pilots) ps tcs) = map fst ps"
proof (induction tcs arbitrary: ps)
  case Nil
  then show ?case by simp
next
  case (Cons tc tcs)
  have k: "map fst (distribute_type pilots ps tc) = map fst ps"
    using Cons.prems by (rule distribute_type_keys)
  then have "\<forall>p\<in>set pilots. has_key p (distribute_type pilots ps tc)"
    using Cons.prems has_key_cong[OF k] by simp
  from Cons.IH[OF this] k show ?case by simp
qed

subsection \<open>defaultdicts\<close>

lemma map_of_dd_append:
  "map_of (dd_append k v d) k' = (if k' = k then Some (dd_list d k @ [v]) else map_of d k')"
  by (induction d) (auto simp: dd_list_def)

lemma dd_list_dd_append:
  "dd_list (dd_append k v d) k' = (if k' = k then dd_list d k @ [v] else dd_list d k')"
  by (simp add: dd_list_def map_of_dd_append)

lemma keys_dd_append:
  "map fst (dd_append k v d) = (if has_key k d then map fst d else map fst d @ [k])"
  by (induction d) (force simp: has_key_def)+

lemma distinct_dd_append: "distinct (map fst d) \<Longrightarrow> distinct (map fst (dd_append k v d))"
  by (auto simp: keys_dd_append has_key_def)

lemma map_of_dd_incr:
  "map_of (dd_incr k d) k' = (if k' = k then Some (dd_int d k + 1) else map_of d k')"
  by (induction d) (auto simp: dd_int_def)

lemma dd_int_dd_incr: "dd_int (dd_incr k d) k' = (if k' = k then dd_int d k + 1 else dd_int d k')"
  by (simp add: dd_int_def map_of_dd_incr)

lemma keys_dd_incr:
  "map fst (dd_incr k d) = (if has_key k d then map fst d else map fst d @ [k])"
  by (induction d) (force simp: has_key_def)+

lemma distinct_dd_incr: "distinct (map fst d) \<Longrightarrow> distinct (map fst (dd_incr k d))"
  by (auto simp: keys_dd_incr has_key_def)

lemma foldl_dd_incr:
  "dd_int (foldl (\<lambda>d a. dd_incr (key a) d) d xs) c = dd_int d c + int (length (filter (\<lambda>a. key a = c) xs))"
  by (induction xs arbitrary: d) (simp_all add: dd_int_dd_incr)

lemma foldl_dd_incr_distinct:
  "distinct (map fst d) \<Longrightarrow> distinct (map fst (foldl (\<lambda>d a. dd_incr (key a) d) d xs))"
  by (induction xs arbitrary: d) (simp_all add: distinct_dd_incr)

lemma coalition_losses_count:
  "dd_int (coalition_losses_of ra) c = int (length (filter (\<lambda>a. o_coalition a = c) ra))"
  by (simp add: coalition_losses_of_def foldl_dd_incr) (simp add: dd_int_def)

lemma missile_types_count:
  "dd_int (missile_types_of ms) n = int (length (filter (\<lambda>m. get_or (o_name m) [] = n) ms))"
  by (simp add: missile_types_of_def foldl_dd_incr) (simp add: dd_int_def)

lemma missile_types_distinct: "distinct (map fst (missile_types_of ms))"
  by (simp add: missile_types_of_def foldl_dd_incr_distinct)

lemma foldl_dd_append:
  "dd_list (foldl (\<lambda>d a. if P a then dd_append (key a) (val a) d else d) d xs) c
     = dd_list d c @ map val (filter (\<lambda>a. P a \<and> key a = c) xs)"
  by (induction xs arbitrary: d) (simp_all add: dd_list_dd_append)

lemma coalition_pilots_list:
  "dd_list (coalition_pilots_of ps) c =
   map fst (filter (\<lambda>(p, s). is_fighter_aircraft (aircraft_type s) \<and> coalition s = c) ps)"
proof -
  have e: "(\<lambda>d (p, s). if is_fighter_aircraft (aircraft_type s) then dd_append (coalition s) p d else d)
      = (\<lambda>d a. if is_fighter_aircraft (aircraft_type (snd a)) then dd_append (coalition (snd a)) (fst a) d else d)"
    by (auto simp: fun_eq_iff)
  have f: "(\<lambda>(p, s). is_fighter_aircraft (aircraft_type s) \<and> coalition s = c)
      = (\<lambda>a. is_fighter_aircraft (aircraft_type (snd a)) \<and> coalition (snd a) = c)"
    by (auto simp: fun_eq_iff)
  show ?thesis
    unfolding coalition_pilots_of_def e f foldl_dd_append
    by (simp add: dd_list_def)
qed

lemma coalition_missiles_list:
  "dd_list (coalition_missiles_of ms) c = filter (\<lambda>m. o_coalition m = c) ms"
  using foldl_dd_append[of "\<lambda>_. True" o_coalition "\<lambda>m. m" "[]" ms c]
  by (simp add: coalition_missiles_of_def dd_list_def)

lemma coalition_missiles_distinct: "distinct (map fst (coalition_missiles_of ms))"
proof -
  have "distinct (map fst d) \<Longrightarrow> distinct (map fst (foldl (\<lambda>d m. dd_append (o_coalition m) m d) d ms))" for d
    by (induction ms arbitrary: d) (simp_all add: distinct_dd_append)
  then show ?thesis by (simp add: coalition_missiles_of_def)
qed

lemma coalition_pilots_keys: "p \<in> set (dd_list (coalition_pilots_of ps) c) \<Longrightarrow> has_key p ps"
  by (auto simp: coalition_pilots_list has_key_def)

lemma coalition_pilots_distinct:
  "distinct (map fst ps) \<Longrightarrow> distinct (dd_list (coalition_pilots_of ps) c)"
  by (simp add: coalition_pilots_list distinct_map_filter)

lemma distribute_coalition_keys:
  assumes "\<forall>p\<in>set (dd_list cp (fst cm)). has_key p ps"
  shows "map fst (distribute_coalition cp ps cm) = map fst ps"
  using assms by (simp add: distribute_coalition_def Let_def foldl_distribute_type_keys)

lemma foldl_distribute_coalition_keys:
  assumes "\<forall>c. \<forall>p\<in>set (dd_list cp c). has_key p ps"
  shows "map fst (foldl (distribute_coalition cp) ps cms) = map fst ps"
  using assms
proof (induction cms arbitrary: ps)
  case Nil
  then show ?case by simp
next
  case (Cons cm cms)
  have k: "map fst (distribute_coalition cp ps cm) = map fst ps"
    using Cons.prems by (simp add: distribute_coalition_keys)
  have "\<forall>c. \<forall>p\<in>set (dd_list cp c). has_key p (distribute_coalition cp ps cm)"
    using Cons.prems has_key_cong[OF k] by simp
  from Cons.IH[OF this] k show ?case by simp
qed

lemma estimate_missile_usage_keys: "map fst (estimate_missile_usage ps ms) = map fst ps"
  unfolding estimate_missile_usage_def
  by (rule foldl_distribute_coalition_keys) (simp add: coalition_pilots_keys)

subsection \<open>kill loop\<close>

lemma shooters_fire_table:
  "fire_table ps = fire_table ps' \<Longrightarrow> coalition_shooters_of ps c = coalition_shooters_of ps' c"
proof (induction ps arbitrary: ps')
  case Nil
  then show ?case by (simp add: fire_table_def coalition_shooters_of_def)
next
  case (Cons a ps)
  then obtain b qs where ps': "ps' = b # qs" by (cases ps') (auto simp: fire_table_def)
  with Cons.prems have h: "fst a = fst b" "coalition (snd a) = coalition (snd b)"
      "missiles_fired (snd a) = missiles_fired (snd b)" "fire_table ps = fire_table qs"
    by (auto simp: fire_table_def split: prod.splits)
  from Cons.IH[OF h(4)] h(1-3) ps' show ?case
    by (auto simp: coalition_shooters_of_def split: prod.splits)
qed

lemma total_as_sum:
  assumes "distinct (map fst ps)"
  shows "total_coalition_missiles_of ps c =
         sum_list (map (\<lambda>(p, s). missiles_fired s) (filter (\<lambda>(p, s). coalition s = c \<and> missiles_fired s > 0) ps))"
proof -
  let ?l = "filter (\<lambda>(p, s). coalition s = c \<and> missiles_fired s > 0) ps"
  have eq: "map (\<lambda>x. missiles_fired (stats_of ps (fst x))) ?l = map (\<lambda>(p, s). missiles_fired s) ?l"
    by (rule map_cong) (auto simp: stats_of_in[OF assms])
  have "total_coalition_missiles_of ps c = sum_list (map (\<lambda>x. missiles_fired (stats_of ps (fst x))) ?l)"
    by (simp add: total_coalition_missiles_of_def coalition_shooters_of_def comp_def)
  also have "\<dots> = sum_list (map (\<lambda>(p, s). missiles_fired s) ?l)"
    by (simp only: eq)
  finally show ?thesis .
qed

lemma sum_fire_table:
  "fire_table ps = fire_table ps' \<Longrightarrow>
   sum_list (map (\<lambda>(p, s). missiles_fired s) (filter (\<lambda>(p, s). coalition s = c \<and> missiles_fired s > 0) ps))
   = sum_list (map (\<lambda>(p, s). missiles_fired s) (filter (\<lambda>(p, s). coalition s = c \<and> missiles_fired s > 0) ps'))"
proof (induction ps arbitrary: ps')
  case Nil
  then show ?case by (simp add: fire_table_def)
next
  case (Cons a ps)
  then obtain b qs where ps': "ps' = b # qs" by (cases ps') (auto simp: fire_table_def)
  with Cons.prems have h: "fst a = fst b" "coalition (snd a) = coalition (snd b)"
      "missiles_fired (snd a) = missiles_fired (snd b)" "fire_table ps = fire_table qs"
    by (auto simp: fire_table_def split: prod.splits)
  from Cons.IH[OF h(4)] h(1-3) ps' show ?case
    by (auto split: prod.splits)
qed

lemma keys_fire_table: "fire_table ps = fire_table ps' \<Longrightarrow> map fst ps = map fst ps'"
proof -
  have "map fst (fire_table qs) = map fst qs" for qs
    by (induction qs) (auto simp: fire_table_def)
  then show "fire_table ps = fire_table ps' \<Longrightarrow> map fst ps = map fst ps'" by metis
qed

lemma total_fire_table:
  assumes "fire_table ps = fire_table ps'" "distinct (map fst ps)"
  shows "total_coalition_missiles_of ps c = total_coalition_missiles_of ps' c"
proof -
  have d': "distinct (map fst ps')" using keys_fire_table[OF assms(1)] assms(2) by simp
  show ?thesis
    unfolding total_as_sum[OF assms(2)] total_as_sum[OF d'] by (rule sum_fire_table[OF assms(1)])
qed

lemma kill_entry_fire_table:
  assumes "fire_table ps = fire_table ps'" "distinct (map fst ps)"
  shows "kill_entry h cl ps = kill_entry h cl ps'"
proof -
  have s: "coalition_shooters_of ps c = coalition_shooters_of ps' c" for c
    by (rule shooters_fire_table[OF assms(1)])
  have t: "total_coalition_missiles_of ps c = total_coalition_missiles_of ps' c" for c
    by (rule total_fire_table[OF assms])
  show ?thesis
    unfolding kill_entry_def s t ..
qed

lemma pos_sum:
  fixes xs :: "int list"
  assumes "xs \<noteq> []" "\<forall>x\<in>set xs. 0 < x"
  shows "0 < sum_list xs"
proof (cases xs)
  case Nil
  with assms show ?thesis by simp
next
  case (Cons a ys)
  with assms have a: "0 < a" and "\<forall>x\<in>set ys. 0 \<le> x"
    by (simp_all add: less_imp_le)
  then have "0 \<le> sum_list ys" by (simp add: sum_list_nonneg)
  with a Cons show ?thesis by simp
qed

lemma total_pos:
  assumes "distinct (map fst ps)" "coalition_shooters_of ps c \<noteq> []"
  shows "0 < total_coalition_missiles_of ps c"
proof -
  let ?l = "filter (\<lambda>(p, s). coalition s = c \<and> missiles_fired s > 0) ps"
  have ne: "map (\<lambda>(p, s). missiles_fired s) ?l \<noteq> []"
    using assms(2) by (simp add: coalition_shooters_of_def)
  have pos: "\<forall>x\<in>set (map (\<lambda>(p, s). missiles_fired s) ?l). 0 < x" by auto
  show ?thesis
    unfolding total_as_sum[OF assms(1)] by (rule pos_sum[OF ne pos])
qed

lemma upd_absent: "\<not> has_key k d \<Longrightarrow> upd k f d = d"
  by (induction d) (auto simp: upd_def has_key_def)

lemma upd_id: "(\<And>v. (k, v) \<in> set d \<Longrightarrow> f v = v) \<Longrightarrow> upd k f d = d"
  by (induction d) (auto simp: upd_def)

lemma upd_cong_entry:
  "(\<And>v. (k, v) \<in> set d \<Longrightarrow> f v = g v) \<Longrightarrow> upd k f d = upd k g d"
  by (induction d) (auto simp: upd_def)

lemma kill_step_upd:
  assumes "distinct (map fst ps)"
  shows "kill_step h cl ps p = Inr (upd p (kill_entry h cl ps) ps)"
proof (cases "has_key p ps")
  case False
  then have "stats_of ps p = default_stats"
    by (simp add: stats_of_def lookup_or_def has_key_map_of)
  then show ?thesis
    using False by (simp add: kill_step_def upd_absent default_stats_def)
next
  case True
  then obtain s where s: "(p, s) \<in> set ps" by (auto simp: has_key_def)
  then have st: "stats_of ps p = s" using assms by (simp add: stats_of_in)
  have uniq: "v = s" if "(p, v) \<in> set ps" for v
    using that s assms by (meson eq_key_imp_eq_value)
  show ?thesis
  proof (cases "missiles_fired s = 0 \<or> dd_int cl (enemy_of (coalition s)) = 0
                \<or> coalition_shooters_of ps (coalition s) = []")
    case True
    then have e: "kill_entry h cl ps s = s" by (auto simp: kill_entry_def Let_def)
    have "upd p (kill_entry h cl ps) ps = ps"
    proof (rule upd_id)
      fix v assume "(p, v) \<in> set ps"
      then have "v = s" by (rule uniq)
      with e show "kill_entry h cl ps v = v" by simp
    qed
    moreover have "kill_step h cl ps p = Inr ps"
      using True by (auto simp: kill_step_def st Let_def)
    ultimately show ?thesis by simp
  next
    case False
    then have pos: "total_coalition_missiles_of ps (coalition s) \<noteq> 0"
      using total_pos[OF assms, of "coalition s"] by simp
    let ?k = "min (py_int (int_times_float (missiles_fired s) h))
                  (py_int (int_times_float (dd_int cl (enemy_of (coalition s)))
                     (int_truediv (missiles_fired s) (total_coalition_missiles_of ps (coalition s)))))"
    let ?f = "\<lambda>s'. s'\<lparr>air_to_air_kills := ?k,
                        estimated_hit_rate := (if missiles_fired s' > 0 then h else 0)\<rparr>"
    have "upd p ?f ps = upd p (kill_entry h cl ps) ps"
    proof (rule upd_cong_entry)
      fix v assume "(p, v) \<in> set ps"
      then have "v = s" by (rule uniq)
      then show "?f v = kill_entry h cl ps v"
        using False by (simp add: kill_entry_def Let_def)
    qed
    moreover have "kill_step h cl ps p = Inr (upd p ?f ps)"
      using False pos by (simp add: kill_step_def st Let_def)
    ultimately show ?thesis by simp
  qed
qed

lemma fire_table_upd:
  "(\<And>s. coalition (f s) = coalition s \<and> missiles_fired (f s) = missiles_fired s) \<Longrightarrow>
   fire_table (upd p f ps) = fire_table ps"
  by (induction ps) (auto simp: fire_table_def upd_def)

lemma kill_entry_keeps: "coalition (kill_entry h cl ps s) = coalition s \<and>
   missiles_fired (kill_entry h cl ps s) = missiles_fired s"
  by (simp add: kill_entry_def Let_def)

lemma kill_loop_map:
  assumes "distinct (map fst ps)" "fire_table ps = fire_table ps0" "distinct ks"
  shows "kill_loop h cl ks ps =
         Inr (map (\<lambda>(p, s). if p \<in> set ks then (p, kill_entry h cl ps0 s) else (p, s)) ps)"
  using assms
proof (induction ks arbitrary: ps)
  case Nil
  then show ?case by simp
next
  case (Cons k ks)
  let ?ps1 = "upd k (kill_entry h cl ps0) ps"
  have ke: "kill_entry h cl ps = kill_entry h cl ps0"
    by (rule kill_entry_fire_table[OF Cons.prems(2,1)])
  have step: "kill_step h cl ps k = Inr ?ps1"
    using Cons.prems ke by (simp add: kill_step_upd)
  have d1: "distinct (map fst ?ps1)" using Cons.prems by (simp add: keys_upd)
  have f1: "fire_table ?ps1 = fire_table ps0"
    using Cons.prems(2) by (simp add: fire_table_upd kill_entry_keeps)
  have d2: "distinct ks" using Cons.prems by simp
  have "map (\<lambda>(p, s). if p \<in> set ks then (p, kill_entry h cl ps0 s) else (p, s)) ?ps1
      = map (\<lambda>(p, s). if p \<in> set (k # ks) then (p, kill_entry h cl ps0 s) else (p, s)) ps"
    using Cons.prems(3) by (auto simp: upd_def)
  with Cons.IH[OF d1 f1 d2] step show ?case by simp
qed

lemma calculate_kill_estimates_map:
  assumes "distinct (map fst ps)"
  shows "calculate_kill_estimates h ps ra =
         Inr (map (\<lambda>(p, s). (p, kill_entry h (coalition_losses_of ra) ps s)) ps)"
proof -
  have "map (\<lambda>(p, s). if p \<in> set (map fst ps) then (p, kill_entry h (coalition_losses_of ra) ps s) else (p, s)) ps
      = map (\<lambda>(p, s). (p, kill_entry h (coalition_losses_of ra) ps s)) ps"
    by (auto simp: rev_image_eqI)
  then show ?thesis
    using kill_loop_map[OF assms refl assms, of h "coalition_losses_of ra"]
    by (simp add: calculate_kill_estimates_def)
qed

subsection \<open>improved analyzer: the whole run\<close>

lemma pilots_after_analyze_pilots_distinct: "distinct (map fst (pilots_after_analyze_pilots acmi))"
  by (simp add: pilots_after_analyze_pilots_def analyze_pilots_distinct)

lemma pilots_after_estimate_keys:
  "map fst (pilots_after_estimate acmi) = map fst (pilots_after_analyze_pilots acmi)"
  by (simp add: pilots_after_estimate_def estimate_missile_usage_keys)

lemma pilots_after_estimate_distinct: "distinct (map fst (pilots_after_estimate acmi))"
  by (simp add: pilots_after_estimate_keys pilots_after_analyze_pilots_distinct)

lemma analyze_combat_data_with_map:
  "analyze_combat_data_with h acmi =
   Inr (map (\<lambda>(p, s). (p, kill_entry h (coalition_losses_of (removed_aircraft_of acmi)) (pilots_after_estimate acmi) s))
          (pilots_after_estimate acmi))"
  by (simp add: analyze_combat_data_with_def calculate_kill_estimates_map pilots_after_estimate_distinct)

lemma has_key_empty: "\<not> has_key k []"
  by (simp add: has_key_def)

lemma pilot_key_nonempty:
  "has_key p (pilots_after_analyze_pilots acmi) \<Longrightarrow> p \<noteq> []"
  by (auto simp: pilots_after_analyze_pilots_def analyze_pilots_keys has_key_empty)

lemma kill_entry_deaths: "deaths (kill_entry h cl ps s) = deaths s"
  by (simp add: kill_entry_def Let_def)

lemma improved_deaths:
  assumes "analyze_combat_data_with h acmi = Inr final" "(p, s) \<in> set final"
  shows "deaths s = int (length (filter (\<lambda>a. is_plane a \<and> o_pilot a = Some p) (removed_objects acmi)))"
proof -
  let ?ps2 = "pilots_after_estimate acmi"
  from assms obtain s2 where s2: "(p, s2) \<in> set ?ps2" and d: "deaths s = deaths s2"
    by (auto simp: analyze_combat_data_with_map kill_entry_deaths)
  then have st: "stats_of ?ps2 p = s2"
    by (simp add: stats_of_in pilots_after_estimate_distinct)
  have "has_key p ?ps2" using s2 by (force simp: has_key_def)
  then have "has_key p (pilots_after_analyze_pilots acmi)"
    using has_key_cong[OF pilots_after_estimate_keys] by simp
  then have ne: "p \<noteq> []" by (rule pilot_key_nonempty)
  have "deaths s2 = deaths (stats_of (pilots_after_analyze_pilots acmi) p)"
    using st estimate_deaths[of "pilots_after_analyze_pilots acmi" "a2a_missiles_of acmi" p]
    by (simp add: pilots_after_estimate_def)
  with d ne show ?thesis by (simp add: pilots_after_analyze_pilots_deaths)
qed

lemma before_heuristics_deaths:
  assumes "(p, s) \<in> set (pilots_after_analyze_pilots acmi)"
  shows "deaths s = int (length (filter (\<lambda>a. is_plane a \<and> o_pilot a = Some p) (removed_objects acmi)))"
proof -
  have st: "stats_of (pilots_after_analyze_pilots acmi) p = s"
    using assms by (simp add: stats_of_in pilots_after_analyze_pilots_distinct)
  have "has_key p (pilots_after_analyze_pilots acmi)" using assms by (force simp: has_key_def)
  then have "p \<noteq> []" by (rule pilot_key_nonempty)
  from pilots_after_analyze_pilots_deaths[OF this, of acmi] st show ?thesis by simp
qed

section \<open>Properties: the first analyzer\<close>

lemma b_stats_of_in: "distinct (map fst ps) \<Longrightarrow> (p, s) \<in> set ps \<Longrightarrow> b_stats_of ps p = s"
  by (simp add: b_stats_of_def lookup_or_in)

lemma b_stats_of_dd_upd:
  "b_stats_of (b_dd_upd k f ps) k' = (if k' = k then f (b_stats_of ps k) else b_stats_of ps k')"
  by (simp add: b_stats_of_def b_dd_upd_def lookup_or_dd_set)

lemma b_stats_of_append_new:
  "\<not> has_key k ps \<Longrightarrow> b_stats_of (ps @ [(k, v)]) k' = (if k' = k then v else b_stats_of ps k')"
  by (simp add: b_stats_of_def lookup_or_append_new)

lemma b_stats_of_absent: "\<not> has_key k ps \<Longrightarrow> b_stats_of ps k = b_default_stats"
  by (simp add: b_stats_of_def lookup_or_def has_key_map_of)

lemma analyze_aircraft_step_deaths:
  "b_deaths (b_stats_of (analyze_aircraft_step removed ps a) q) =
   b_deaths (b_stats_of ps q) + (if o_pilot a = Some q \<and> q \<noteq> [] \<and> a \<in> set removed then 1 else 0)"
proof (cases "o_pilot a")
  case None
  then show ?thesis by (simp add: analyze_aircraft_step_def)
next
  case (Some p)
  have new: "b_deaths (b_stats_of (ps @ [(p, b_init_stats p a)]) q) = b_deaths (b_stats_of ps q)" if "\<not> has_key p ps"
    using that by (simp add: b_stats_of_append_new b_init_stats_def b_stats_of_absent b_default_stats_def)
  show ?thesis
    using Some new by (auto simp: analyze_aircraft_step_def Let_def b_stats_of_dd_upd)
qed

lemma analyze_aircraft_deaths:
  "b_deaths (b_stats_of (analyze_aircraft acmi ps aircraft) q) =
   b_deaths (b_stats_of ps q)
   + int (length (filter (\<lambda>a. o_pilot a = Some q \<and> q \<noteq> [] \<and> a \<in> set (removed_objects acmi)) aircraft))"
  unfolding analyze_aircraft_def
  by (induction aircraft arbitrary: ps) (simp_all add: analyze_aircraft_step_deaths)

lemma keys_ok_dd_set: "keys_ok d \<Longrightarrow> k \<noteq> [] \<Longrightarrow> keys_ok (dd_set dflt k f d)"
  by (simp add: keys_ok_def distinct_dd_set has_key_dd_set)

lemma keys_ok_append: "keys_ok d \<Longrightarrow> k \<noteq> [] \<Longrightarrow> \<not> has_key k d \<Longrightarrow> keys_ok (d @ [(k, v)])"
  by (force simp: keys_ok_def has_key_def)

lemma analyze_aircraft_step_ok: "keys_ok ps \<Longrightarrow> keys_ok (analyze_aircraft_step removed ps a)"
  by (auto simp: analyze_aircraft_step_def Let_def b_dd_upd_def keys_ok_dd_set keys_ok_append
      split: option.splits)

lemma analyze_aircraft_ok: "keys_ok ps \<Longrightarrow> keys_ok (analyze_aircraft acmi ps aircraft)"
  unfolding analyze_aircraft_def
  by (induction aircraft arbitrary: ps) (simp_all add: analyze_aircraft_step_ok)

lemma analyze_missiles_step_ok: "keys_ok ps \<Longrightarrow> keys_ok (analyze_missiles_step acmi ps m)"
  by (auto simp: analyze_missiles_step_def Let_def b_dd_upd_def keys_ok_dd_set split: option.splits)

lemma analyze_missiles_ok: "keys_ok ps \<Longrightarrow> keys_ok (analyze_missiles acmi ps ms)"
  unfolding analyze_missiles_def
  by (induction ms arbitrary: ps) (simp_all add: analyze_missiles_step_ok)

lemma analyze_missiles_step_deaths:
  "b_deaths (b_stats_of (analyze_missiles_step acmi ps m) q) = b_deaths (b_stats_of ps q)"
  by (auto simp: analyze_missiles_step_def Let_def b_stats_of_dd_upd split: option.splits)

lemma analyze_missiles_deaths:
  "b_deaths (b_stats_of (analyze_missiles acmi ps ms) q) = b_deaths (b_stats_of ps q)"
  unfolding analyze_missiles_def
  by (induction ms arbitrary: ps) (simp_all add: analyze_missiles_step_deaths)

lemma b_pilots_after_missiles_ok: "keys_ok (b_pilots_after_missiles acmi)"
proof -
  have "keys_ok ([] :: (string \<times> bstats) list)"
    by (simp add: keys_ok_def has_key_empty)
  then show ?thesis
    unfolding b_pilots_after_missiles_def
    by (intro analyze_missiles_ok analyze_aircraft_ok)
qed

lemma b_pilots_after_missiles_deaths:
  assumes "q \<noteq> []"
  shows "b_deaths (b_stats_of (b_pilots_after_missiles acmi) q) =
         int (length (filter (\<lambda>a. is_plane a \<and> o_pilot a = Some q) (removed_objects acmi)))"
proof -
  let ?P = "\<lambda>a. o_pilot a = Some q \<and> q \<noteq> [] \<and> a \<in> set (removed_objects acmi)"
  have 1: "filter ?P (filter is_plane (alive_objects acmi)) = []"
    by (auto simp: filter_empty_conv alive_objects_def removed_objects_def)
  have 2: "filter ?P (filter is_plane (removed_objects acmi))
         = filter (\<lambda>a. is_plane a \<and> o_pilot a = Some q) (removed_objects acmi)"
    using assms by (auto intro: filter_cong)
  have e: "b_deaths (b_stats_of [] q) = 0"
    by (simp add: b_stats_of_def lookup_or_def b_default_stats_def)
  show ?thesis
    unfolding b_pilots_after_missiles_def analyze_missiles_deaths analyze_aircraft_deaths
      analyze_objects_def fst_conv all_objects_of_def filter_append 1 2 e
    by simp
qed

lemma b_shooters_fire_table:
  "b_fire_table ps = b_fire_table ps' \<Longrightarrow> b_shooters ps c = b_shooters ps' c"
proof (induction ps arbitrary: ps')
  case Nil
  then show ?case by (simp add: b_fire_table_def b_shooters_def)
next
  case (Cons a ps)
  then obtain b qs where ps': "ps' = b # qs" by (cases ps') (auto simp: b_fire_table_def)
  with Cons.prems have h: "fst a = fst b" "b_coalition (snd a) = b_coalition (snd b)"
      "b_missiles_fired (snd a) = b_missiles_fired (snd b)" "b_fire_table ps = b_fire_table qs"
    by (auto simp: b_fire_table_def split: prod.splits)
  from Cons.IH[OF h(4)] h(1-3) ps' show ?case
    by (auto simp: b_shooters_def split: prod.splits)
qed

lemma b_kill_entry_fire_table:
  assumes "b_fire_table ps = b_fire_table ps'"
  shows "b_kill_entry ra ps = b_kill_entry ra ps'"
proof -
  have s: "b_shooters ps c = b_shooters ps' c" for c
    by (rule b_shooters_fire_table[OF assms])
  show ?thesis unfolding b_kill_entry_def s ..
qed

lemma b_shooters_pos:
  assumes "(p, s) \<in> set ps" "0 < b_missiles_fired s"
  shows "0 < b_shooters ps (b_coalition s)"
proof -
  have "filter (\<lambda>(p, s'). b_coalition s' = b_coalition s \<and> b_missiles_fired s' > 0) ps \<noteq> []"
    unfolding filter_empty_conv using assms by blast
  then show ?thesis by (simp add: b_shooters_def)
qed

lemma b_kill_step_upd:
  assumes "distinct (map fst ps)"
  shows "b_kill_step ra ps p = Inr (upd p (b_kill_entry ra ps) ps)"
proof (cases "has_key p ps")
  case False
  then show ?thesis
    by (simp add: b_kill_step_def upd_absent b_stats_of_absent b_default_stats_def)
next
  case True
  then obtain s where s: "(p, s) \<in> set ps" by (auto simp: has_key_def)
  then have st: "b_stats_of ps p = s" using assms by (simp add: b_stats_of_in)
  have uniq: "v = s" if "(p, v) \<in> set ps" for v
    using that s assms by (meson eq_key_imp_eq_value)
  show ?thesis
  proof (cases "b_missiles_fired s > 0 \<and> b_enemy_losses ra (b_coalition s) > 0")
    case False
    then have e: "b_kill_entry ra ps s = s" by (auto simp: b_kill_entry_def)
    have "upd p (b_kill_entry ra ps) ps = ps"
    proof (rule upd_id)
      fix v assume "(p, v) \<in> set ps"
      then have "v = s" by (rule uniq)
      with e show "b_kill_entry ra ps v = v" by simp
    qed
    moreover have "b_kill_step ra ps p = Inr ps"
      using False by (auto simp: b_kill_step_def st Let_def)
    ultimately show ?thesis by simp
  next
    case True
    then have pos: "b_shooters ps (b_coalition s) \<noteq> 0"
      using b_shooters_pos[OF s] by simp
    let ?k = "max 0 (min (b_missiles_fired s div 2)
                (if b_enemy_losses ra (b_coalition s) div b_shooters ps (b_coalition s) \<noteq> 0
                 then b_enemy_losses ra (b_coalition s) div b_shooters ps (b_coalition s) else 1))"
    have "upd p (\<lambda>s'. s'\<lparr>b_air_to_air_kills := ?k\<rparr>) ps = upd p (b_kill_entry ra ps) ps"
    proof (rule upd_cong_entry)
      fix v assume "(p, v) \<in> set ps"
      then have "v = s" by (rule uniq)
      then show "v\<lparr>b_air_to_air_kills := ?k\<rparr> = b_kill_entry ra ps v"
        using True by (simp add: b_kill_entry_def Let_def)
    qed
    moreover have "b_kill_step ra ps p = Inr (upd p (\<lambda>s'. s'\<lparr>b_air_to_air_kills := ?k\<rparr>) ps)"
      using True pos by (simp add: b_kill_step_def st Let_def)
    ultimately show ?thesis by simp
  qed
qed

lemma b_fire_table_upd:
  "(\<And>s. b_coalition (f s) = b_coalition s \<and> b_missiles_fired (f s) = b_missiles_fired s) \<Longrightarrow>
   b_fire_table (upd p f ps) = b_fire_table ps"
  by (induction ps) (auto simp: b_fire_table_def upd_def)

lemma b_kill_entry_keeps: "b_coalition (b_kill_entry ra ps s) = b_coalition s \<and>
   b_missiles_fired (b_kill_entry ra ps s) = b_missiles_fired s"
  by (simp add: b_kill_entry_def Let_def)

lemma b_kill_loop_map:
  assumes "distinct (map fst ps)" "b_fire_table ps = b_fire_table ps0" "distinct ks"
  shows "b_kill_loop ra ks ps =
         Inr (map (\<lambda>(p, s). if p \<in> set ks then (p, b_kill_entry ra ps0 s) else (p, s)) ps)"
  using assms
proof (induction ks arbitrary: ps)
  case Nil
  then show ?case by simp
next
  case (Cons k ks)
  let ?ps1 = "upd k (b_kill_entry ra ps0) ps"
  have ke: "b_kill_entry ra ps = b_kill_entry ra ps0"
    by (rule b_kill_entry_fire_table[OF Cons.prems(2)])
  have step: "b_kill_step ra ps k = Inr ?ps1"
    using Cons.prems ke by (simp add: b_kill_step_upd)
  have d1: "distinct (map fst ?ps1)" using Cons.prems by (simp add: keys_upd)
  have f1: "b_fire_table ?ps1 = b_fire_table ps0"
    using Cons.prems(2) by (simp add: b_fire_table_upd b_kill_entry_keeps)
  have d2: "distinct ks" using Cons.prems by simp
  have "map (\<lambda>(p, s). if p \<in> set ks then (p, b_kill_entry ra ps0 s) else (p, s)) ?ps1
      = map (\<lambda>(p, s). if p \<in> set (k # ks) then (p, b_kill_entry ra ps0 s) else (p, s)) ps"
    using Cons.prems(3) by (auto simp: upd_def)
  with Cons.IH[OF d1 f1 d2] step show ?case by simp
qed

lemma calculate_kill_statistics_map:
  assumes "distinct (map fst ps)"
  shows "calculate_kill_statistics acmi ps =
         Inr (map (\<lambda>(p, s). (p, b_kill_entry (filter is_plane (removed_objects acmi)) ps s)) ps)"
proof -
  have "map (\<lambda>(p, s). if p \<in> set (map fst ps) then (p, b_kill_entry (filter is_plane (removed_objects acmi)) ps s) else (p, s)) ps
      = map (\<lambda>(p, s). (p, b_kill_entry (filter is_plane (removed_objects acmi)) ps s)) ps"
    by (auto simp: rev_image_eqI)
  then show ?thesis
    using b_kill_loop_map[OF assms refl assms, of "filter is_plane (removed_objects acmi)"]
    by (simp add: calculate_kill_statistics_def)
qed

lemma run_analysis_map:
  "run_analysis acmi =
   Inr (map (\<lambda>(p, s). (p, b_kill_entry (filter is_plane (removed_objects acmi)) (b_pilots_after_missiles acmi) s))
          (b_pilots_after_missiles acmi))"
  using b_pilots_after_missiles_ok[of acmi]
  by (simp add: run_analysis_def calculate_kill_statistics_map keys_ok_def)

lemma basic_deaths:
  assumes "run_analysis acmi = Inr final" "(p, s) \<in> set final"
  shows "b_deaths s = int (length (filter (\<lambda>a. is_plane a \<and> o_pilot a = Some p) (removed_objects acmi)))"
proof -
  let ?ps = "b_pilots_after_missiles acmi"
  have ok: "keys_ok ?ps" by (rule b_pilots_after_missiles_ok)
  from assms obtain s2 where s2: "(p, s2) \<in> set ?ps" and d: "b_deaths s = b_deaths s2"
    by (auto simp: run_analysis_map b_kill_entry_def Let_def)
  then have st: "b_stats_of ?ps p = s2"
    using ok by (simp add: b_stats_of_in keys_ok_def)
  have "has_key p ?ps" using s2 by (force simp: has_key_def)
  then have ne: "p \<noteq> []" using ok by (simp add: keys_ok_def)
  from b_pilots_after_missiles_deaths[OF ne, of acmi] st d show ?thesis by simp
qed


section \<open>Properties: deaths\<close>

text \<open>
  C5. In both analyzers the \<open>deaths\<close> of every pilot in the final statistics is the
  number of removed aircraft records that carry the pilot's name. The improved analyzer
  reaches that number in \<open>analyze_pilots\<close>, before any munition is apportioned, and
  keeps it for every hit rate \<open>h\<close>; neither run can fail.
\<close>

theorem deaths_ground_truth:
  "(\<exists>final. analyze_combat_data_with h acmi = Inr final \<and>
       (\<forall>(p, s)\<in>set final.
          deaths s = int (length (filter (\<lambda>a. is_plane a \<and> o_pilot a = Some p) (removed_objects acmi)))))
   \<and> (\<forall>(p, s)\<in>set (pilots_after_analyze_pilots acmi).
          deaths s = int (length (filter (\<lambda>a. is_plane a \<and> o_pilot a = Some p) (removed_objects acmi))))
   \<and> (\<exists>final. run_analysis acmi = Inr final \<and>
       (\<forall>(p, s)\<in>set final.
          b_deaths s = int (length (filter (\<lambda>a. is_plane a \<and> o_pilot a = Some p) (removed_objects acmi)))))"
proof (intro conjI)
  show "\<exists>final. analyze_combat_data_with h acmi = Inr final \<and>
       (\<forall>(p, s)\<in>set final.
          deaths s = int (length (filter (\<lambda>a. is_plane a \<and> o_pilot a = Some p) (removed_objects acmi))))"
    using improved_deaths[of h acmi] analyze_combat_data_with_map[of h acmi] by blast
  show "\<forall>(p, s)\<in>set (pilots_after_analyze_pilots acmi).
          deaths s = int (length (filter (\<lambda>a. is_plane a \<and> o_pilot a = Some p) (removed_objects acmi)))"
    using before_heuristics_deaths[of _ _ acmi] by blast
  show "\<exists>final. run_analysis acmi = Inr final \<and>
       (\<forall>(p, s)\<in>set final.
          b_deaths s = int (length (filter (\<lambda>a. is_plane a \<and> o_pilot a = Some p) (removed_objects acmi))))"
    using basic_deaths[of acmi] run_analysis_map[of acmi] by blast
qed

theorem deaths_ground_truth_witness:
  "\<exists>final. analyze_combat_data_with hit_rate_literal demo_session = Inr final
      \<and> (''B'', stats_of final ''B'') \<in> set final
      \<and> deaths (stats_of final ''B'') = 1"
proof -
  from deaths_ground_truth[of hit_rate_literal demo_session]
  obtain final where f: "analyze_combat_data_with hit_rate_literal demo_session = Inr final"
    and a: "\<forall>(p, s)\<in>set final.
          deaths s = int (length (filter (\<lambda>a. is_plane a \<and> o_pilot a = Some p) (removed_objects demo_session)))"
    by blast
  have "map fst (projr (analyze_combat_data_with hit_rate_literal demo_session)) = [''A'', ''B'', ''E'', ''F'', ''T'']"
    by code_simp
  with f have "has_key ''B'' final" by (simp add: has_key_def flip: set_map)
  then have m: "(''B'', stats_of final ''B'') \<in> set final"
    by (simp add: stats_of_def has_key_lookup)
  have c: "int (length (filter (\<lambda>a. is_plane a \<and> o_pilot a = Some ''B'') (removed_objects demo_session))) = 1"
    by code_simp
  from a m c have "deaths (stats_of final ''B'') = 1" by fastforce
  with f m show ?thesis by blast
qed

section \<open>Properties: the order of apportionment\<close>

lemma first_seen_step:
  "distinct ks \<Longrightarrow>
   rev (remdups (rev (ks @ x # xs))) = rev (remdups (rev ((if x \<in> set ks then ks else ks @ [x]) @ xs)))"
proof (cases "x \<in> set ks")
  case True
  have "remdups (rev xs @ x # rev ks) = remdups (rev xs @ remdups (x # rev ks))"
    by (simp only: remdups_append2)
  also have "\<dots> = remdups (rev xs @ remdups (rev ks))"
    using True by simp
  also have "\<dots> = remdups (rev xs @ rev ks)"
    by (simp only: remdups_append2)
  finally show ?thesis using True by simp
next
  case False
  then show ?thesis by simp
qed

lemma alive_pilots_of_append: "alive_pilots_of (xs @ ys) = alive_pilots_of xs @ alive_pilots_of ys"
  by (induction xs) (auto split: option.splits)

lemma analyze_pilots_step_order:
  "map fst (analyze_pilots_step aa ap ps a) =
   (case o_pilot a of None \<Rightarrow> map fst ps
    | Some p \<Rightarrow> if p = [] \<or> p \<in> set (map fst ps) then map fst ps else map fst ps @ [p])"
  by (auto simp: analyze_pilots_step_def Let_def dd_upd_def keys_dd_set has_key_append
      split: option.splits) (force simp: has_key_def)+

lemma analyze_pilots_order:
  "distinct (map fst ps) \<Longrightarrow>
   map fst (analyze_pilots ps all aa) = rev (remdups (rev (map fst ps @ alive_pilots_of all)))"
  unfolding analyze_pilots_def
proof (induction all arbitrary: ps)
  case Nil
  then show ?case by (simp add: distinct_remdups_id)
next
  case (Cons a all)
  let ?ps1 = "analyze_pilots_step aa (alive_pilots_of aa) ps a"
  have d: "distinct (map fst ?ps1)" using Cons.prems by (rule analyze_pilots_step_distinct)
  show ?case
  proof (cases "o_pilot a")
    case None
    with Cons.IH[OF d] show ?thesis by (simp add: analyze_pilots_step_order)
  next
    case (Some p)
    show ?thesis
    proof (cases "p = []")
      case True
      with Some Cons.IH[OF d] show ?thesis by (simp add: analyze_pilots_step_order)
    next
      case False
      with Some Cons.IH[OF d] first_seen_step[OF Cons.prems, of p "alive_pilots_of all"]
      show ?thesis by (simp add: analyze_pilots_step_order)
    qed
  qed
qed

lemma pilots_first_seen:
  "map fst (pilots_after_analyze_pilots acmi) =
   rev (remdups (rev (alive_pilots_of (alive_aircraft_of acmi @ removed_aircraft_of acmi))))"
  by (simp add: pilots_after_analyze_pilots_def analyze_pilots_order)

lemma keys_filter_entries:
  assumes "distinct (map fst ps)"
  shows "map fst (filter (\<lambda>(p, s). P s) ps) = filter (\<lambda>p. P (stats_of ps p)) (map fst ps)"
proof -
  have "filter (\<lambda>(p, s). P s) ps = filter (\<lambda>x. P (stats_of ps (fst x))) ps"
    by (rule filter_cong) (auto simp: stats_of_in[OF assms])
  then show ?thesis by (simp add: filter_map comp_def)
qed

lemma coalition_pilots_in_order:
  assumes "distinct (map fst ps)"
  shows "dd_list (coalition_pilots_of ps) c =
         filter (\<lambda>p. is_fighter_aircraft (aircraft_type (stats_of ps p)) \<and> coalition (stats_of ps p) = c)
           (map fst ps)"
  unfolding coalition_pilots_list
  by (rule keys_filter_entries[OF assms, where P = "\<lambda>s. is_fighter_aircraft (aircraft_type s) \<and> coalition s = c"])

lemma sublist_in_order: "filter P xs = filter (\<lambda>x. x \<in> set (filter P xs)) xs"
  by (rule filter_cong) auto

lemma capable_same_types:
  "\<forall>p. aircraft_type (stats_of cur p) = aircraft_type (stats_of ps p) \<Longrightarrow>
   capable_pilots_of cur pilots mt = capable_pilots_of ps pilots mt"
  by (simp add: capable_pilots_of_def)

lemma distribute_type_nth:
  assumes "distinct pilots" "cps = capable_pilots_of ps pilots mt" "cps \<noteq> []" "j < length cps"
  shows "stats_of (distribute_type pilots ps (mt, n)) (cps ! j) =
         credit mt (if int j < n mod int (length cps) then n div int (length cps) + 1 else n div int (length cps))
           (stats_of ps (cps ! j))"
proof -
  have d: "distinct cps" using assms(1,2) by (simp add: capable_pilots_of_def)
  show ?thesis
    using distribute_nth[OF d assms(4), of mt "n div int (length cps)" "n mod int (length cps)" 0 ps] assms(2,3)
    by (simp add: distribute_type_def Let_def)
qed

text \<open>
  C4, as the code has it. The capable pilots of a group are taken in the order of
  \<open>pilot_stats\<close>, which is the order in which the pilot names are first met in the
  list of alive aircraft followed by the list of removed aircraft; no step sorts them by
  name. The pilot at position \<open>j\<close> of that order gains \<open>n div K\<close> missiles and one more
  exactly when \<open>j < n mod K\<close>. With two capable pilots and five munitions the pilot met
  first gains 3 and the other 2. Here \<open>cur\<close> is the dictionary when the group is
  reached; the earlier groups have left the aircraft types as they were.
\<close>

theorem apportionment_order:
  assumes "distinct (map fst ps)"
    and "\<forall>p. aircraft_type (stats_of cur p) = aircraft_type (stats_of ps p)"
    and "cps = capable_pilots_of cur (dd_list (coalition_pilots_of ps) c) mt"
    and "cps \<noteq> []"
    and "ps' = distribute_type (dd_list (coalition_pilots_of ps) c) cur (mt, n)"
    and "K = int (length cps)"
  shows "cps = filter (\<lambda>p. p \<in> set cps) (map fst ps)
       \<and> (\<forall>j<length cps.
            missiles_fired (stats_of ps' (cps ! j)) =
            missiles_fired (stats_of cur (cps ! j)) + n div K + (if int j < n mod K then 1 else 0))
       \<and> map fst (pilots_after_analyze_pilots acmi) =
           rev (remdups (rev (alive_pilots_of (alive_aircraft_of acmi @ removed_aircraft_of acmi))))"
proof -
  let ?pilots = "dd_list (coalition_pilots_of ps) c"
  have dp: "distinct ?pilots" using assms(1) by (rule coalition_pilots_distinct)
  have "cps = filter (\<lambda>p. can_carry_missile (aircraft_type (stats_of ps p)) mt) ?pilots"
    using assms(2,3) by (simp add: capable_pilots_of_def)
  then have eq: "cps = filter (\<lambda>p. (is_fighter_aircraft (aircraft_type (stats_of ps p)) \<and> coalition (stats_of ps p) = c)
                 \<and> can_carry_missile (aircraft_type (stats_of ps p)) mt) (map fst ps)"
    by (simp add: coalition_pilots_in_order[OF assms(1)] conj_commute)
  have order: "cps = filter (\<lambda>p. p \<in> set cps) (map fst ps)"
    using sublist_in_order[of "\<lambda>p. (is_fighter_aircraft (aircraft_type (stats_of ps p)) \<and> coalition (stats_of ps p) = c)
                 \<and> can_carry_missile (aircraft_type (stats_of ps p)) mt" "map fst ps"]
    unfolding eq[symmetric] .
  have nth: "missiles_fired (stats_of ps' (cps ! j)) =
        missiles_fired (stats_of cur (cps ! j)) + n div K + (if int j < n mod K then 1 else 0)"
    if "j < length cps" for j
    using distribute_type_nth[OF dp assms(3,4) that, of n] assms(5,6)
    by (simp add: credit_def)
  show ?thesis
  proof (intro conjI allI impI)
    show "cps = filter (\<lambda>p. p \<in> set cps) (map fst ps)" by (rule order)
    show "missiles_fired (stats_of ps' (cps ! j)) =
        missiles_fired (stats_of cur (cps ! j)) + n div K + (if int j < n mod K then 1 else 0)"
      if "j < length cps" for j using that by (rule nth)
    show "map fst (pilots_after_analyze_pilots acmi) =
           rev (remdups (rev (alive_pilots_of (alive_aircraft_of acmi @ removed_aircraft_of acmi))))"
      by (rule pilots_first_seen)
  qed
qed

theorem apportionment_order_witness:
  "distinct (map fst (pilots_after_analyze_pilots a_first_session))
   \<and> capable_pilots_of (pilots_after_analyze_pilots a_first_session)
        (dd_list (coalition_pilots_of (pilots_after_analyze_pilots a_first_session)) ''Blue'') ''AIM-9M'' = [''A'', ''B'']
   \<and> missiles_fired (stats_of (distribute_type
          (dd_list (coalition_pilots_of (pilots_after_analyze_pilots a_first_session)) ''Blue'')
          (pilots_after_analyze_pilots a_first_session) (''AIM-9M'', 5)) ''A'') = 3
   \<and> missiles_fired (stats_of (distribute_type
          (dd_list (coalition_pilots_of (pilots_after_analyze_pilots a_first_session)) ''Blue'')
          (pilots_after_analyze_pilots a_first_session) (''AIM-9M'', 5)) ''B'') = 2"
proof -
  let ?ps = "pilots_after_analyze_pilots a_first_session"
  have d: "distinct (map fst ?ps)" by (rule pilots_after_analyze_pilots_distinct)
  have c: "[''A'', ''B''] = capable_pilots_of ?ps (dd_list (coalition_pilots_of ?ps) ''Blue'') ''AIM-9M''"
    by code_simp
  have m: "missiles_fired (stats_of ?ps ''A'') = 0" "missiles_fired (stats_of ?ps ''B'') = 0"
    by code_simp+
  have s: "\<forall>p. aircraft_type (stats_of ?ps p) = aircraft_type (stats_of ?ps p)" by simp
  note t = apportionment_order[OF d s c _ refl refl, of 5 a_first_session]
  have a: "missiles_fired (stats_of (distribute_type (dd_list (coalition_pilots_of ?ps) ''Blue'') ?ps (''AIM-9M'', 5)) ''A'') = 3"
    using t[THEN conjunct2, THEN conjunct1, rule_format, of 0] m by simp
  have b: "missiles_fired (stats_of (distribute_type (dd_list (coalition_pilots_of ?ps) ''Blue'') ?ps (''AIM-9M'', 5)) ''B'') = 2"
    using t[THEN conjunct2, THEN conjunct1, rule_format, of 1] m by simp
  from a b c d show ?thesis by simp
qed

text \<open>
  C4, as stated, fails: when pilot B's aircraft is listed before pilot A's, B receives
  3 of the 5 munitions and A receives 2, although \<open>''A'' < ''B''\<close>.
\<close>

theorem lexicographic_order_counterexample:
  "map (\<lambda>(p, s). (p, missiles_fired s)) (pilots_after_estimate b_first_session) = [(''B'', 3), (''A'', 2)]"
  by code_simp

section \<open>Properties: pilots that fly no fighter\<close>

lemma stats_of_absent: "\<not> has_key k ps \<Longrightarrow> stats_of ps k = default_stats"
  by (simp add: stats_of_def lookup_or_def has_key_map_of)

lemma analyze_pilots_step_frame:
  assumes "\<And>p a ap. g (init_stats p a ap) = g default_stats" "\<And>s d. g (s\<lparr>deaths := d\<rparr>) = g s"
  shows "g (stats_of (analyze_pilots_step aa ap ps a) q) = g (stats_of ps q)"
proof (cases "o_pilot a")
  case None
  then show ?thesis by (simp add: analyze_pilots_step_def)
next
  case (Some p)
  have new: "g (stats_of (ps @ [(p, init_stats p a ap)]) q) = g (stats_of ps q)" if "\<not> has_key p ps"
    using that by (simp add: stats_of_append_new assms(1) stats_of_absent)
  show ?thesis
    using Some new by (auto simp: analyze_pilots_step_def Let_def stats_of_dd_upd assms(2))
qed

lemma analyze_pilots_frame:
  assumes "\<And>p a ap. g (init_stats p a ap) = g default_stats" "\<And>s d. g (s\<lparr>deaths := d\<rparr>) = g s"
  shows "g (stats_of (analyze_pilots ps all aa) q) = g (stats_of ps q)"
  unfolding analyze_pilots_def
  by (induction all arbitrary: ps) (simp_all add: analyze_pilots_step_frame[where g = g, OF assms])

lemma after_analyze_pilots_fresh:
  "missiles_fired (stats_of (pilots_after_analyze_pilots acmi) q) = 0"
  "air_to_air_kills (stats_of (pilots_after_analyze_pilots acmi) q) = 0"
  "missile_types_used (stats_of (pilots_after_analyze_pilots acmi) q) = []"
  "estimated_hit_rate (stats_of (pilots_after_analyze_pilots acmi) q) = 0"
  unfolding pilots_after_analyze_pilots_def
  by (subst analyze_pilots_frame; simp add: init_stats_def default_stats_def empty_stats_of)+

subsection \<open>Pilots outside the capable list\<close>

lemma distribute_type_other:
  "p \<notin> set pilots \<Longrightarrow> stats_of (distribute_type pilots ps tc) p = stats_of ps p"
  by (simp add: distribute_type_def Let_def capable_pilots_of_def distribute_other)

lemma foldl_distribute_type_other:
  "p \<notin> set pilots \<Longrightarrow> stats_of (foldl (distribute_type pilots) ps tcs) p = stats_of ps p"
  by (induction tcs arbitrary: ps) (simp_all add: distribute_type_other)

lemma distribute_coalition_other:
  "p \<notin> set (dd_list cp (fst cm)) \<Longrightarrow> stats_of (distribute_coalition cp ps cm) p = stats_of ps p"
  by (simp add: distribute_coalition_def Let_def foldl_distribute_type_other)

lemma foldl_distribute_coalition_other:
  "\<forall>c. p \<notin> set (dd_list cp c) \<Longrightarrow> stats_of (foldl (distribute_coalition cp) ps cms) p = stats_of ps p"
  by (induction cms arbitrary: ps) (simp_all add: distribute_coalition_other)

lemma estimate_nonfighter:
  assumes "distinct (map fst ps)" "\<not> is_fighter_aircraft (aircraft_type (stats_of ps p))"
  shows "stats_of (estimate_missile_usage ps ms) p = stats_of ps p"
proof -
  have "\<forall>c. p \<notin> set (dd_list (coalition_pilots_of ps) c)"
    using assms(2) by (simp add: coalition_pilots_in_order[OF assms(1)])
  then show ?thesis
    unfolding estimate_missile_usage_def by (rule foldl_distribute_coalition_other)
qed

lemma kill_entry_idle: "missiles_fired s = 0 \<Longrightarrow> kill_entry h cl ps s = s"
  by (simp add: kill_entry_def)

lemma in_set_stats_of:
  "distinct (map fst ps) \<longrightarrow> ((p, s) \<in> set ps \<longleftrightarrow> has_key p ps \<and> stats_of ps p = s)"
proof
  assume d: "distinct (map fst ps)"
  show "(p, s) \<in> set ps \<longleftrightarrow> has_key p ps \<and> stats_of ps p = s"
  proof
    assume m: "(p, s) \<in> set ps"
    then have "has_key p ps" by (force simp: has_key_def)
    with m d show "has_key p ps \<and> stats_of ps p = s" by (simp add: stats_of_in)
  next
    assume "has_key p ps \<and> stats_of ps p = s"
    then show "(p, s) \<in> set ps"
      using has_key_lookup[of p ps default_stats] by (auto simp: stats_of_def)
  qed
qed

lemma nonfighters_idle_estimate:
  assumes "distinct (map fst ps)" "nonfighters_idle ps"
  shows "nonfighters_idle (estimate_missile_usage ps ms)"
  unfolding nonfighters_idle_def
proof (intro ballI, clarify)
  fix p s
  assume m: "(p, s) \<in> set (estimate_missile_usage ps ms)"
    and nf: "\<not> is_fighter_aircraft (aircraft_type s)"
  have d': "distinct (map fst (estimate_missile_usage ps ms))"
    using assms(1) by (simp add: estimate_missile_usage_keys)
  from m d' have k: "has_key p (estimate_missile_usage ps ms)" and s: "stats_of (estimate_missile_usage ps ms) p = s"
    by (simp_all add: in_set_stats_of)
  have t: "aircraft_type (stats_of (estimate_missile_usage ps ms) p) = aircraft_type (stats_of ps p)"
    by (rule estimate_missile_usage_frame) (simp add: credit_def)
  with nf s have nf0: "\<not> is_fighter_aircraft (aircraft_type (stats_of ps p))" by simp
  then have same: "s = stats_of ps p" using estimate_nonfighter[OF assms(1)] s by simp
  have "has_key p ps" using k has_key_cong[OF estimate_missile_usage_keys] by blast
  then have "(p, stats_of ps p) \<in> set ps" using assms(1) by (simp add: in_set_stats_of)
  with assms(2) nf0 same
  show "missiles_fired s = 0 \<and> air_to_air_kills s = 0 \<and> missile_types_used s = []"
    unfolding nonfighters_idle_def by blast
qed

lemma nonfighters_idle_kill:
  assumes "distinct (map fst ps)" "nonfighters_idle ps"
  shows "\<exists>ps'. calculate_kill_estimates h ps ra = Inr ps' \<and> nonfighters_idle ps'"
proof -
  let ?ps' = "map (\<lambda>(p, s). (p, kill_entry h (coalition_losses_of ra) ps s)) ps"
  have "nonfighters_idle ?ps'"
    unfolding nonfighters_idle_def
  proof (intro ballI, clarify)
    fix p s'
    assume m: "(p, s') \<in> set ?ps'" and nf: "\<not> is_fighter_aircraft (aircraft_type s')"
    from m obtain s where s: "(p, s) \<in> set ps" and e: "s' = kill_entry h (coalition_losses_of ra) ps s"
      by auto
    have "aircraft_type s' = aircraft_type s" by (simp add: e kill_entry_def Let_def)
    with nf s assms(2) have idle: "missiles_fired s = 0 \<and> air_to_air_kills s = 0 \<and> missile_types_used s = []"
      unfolding nonfighters_idle_def by fastforce
    then have "s' = s" by (simp add: e kill_entry_idle)
    with idle show "missiles_fired s' = 0 \<and> air_to_air_kills s' = 0 \<and> missile_types_used s' = []" by simp
  qed
  then show ?thesis by (simp add: calculate_kill_estimates_map[OF assms(1)])
qed

lemma nonfighters_idle_start: "nonfighters_idle (pilots_after_analyze_pilots acmi)"
  unfolding nonfighters_idle_def
proof (intro ballI, clarify)
  fix p s
  assume "(p, s) \<in> set (pilots_after_analyze_pilots acmi)"
  then have "stats_of (pilots_after_analyze_pilots acmi) p = s"
    by (simp add: stats_of_in pilots_after_analyze_pilots_distinct)
  with after_analyze_pilots_fresh[of acmi p]
  show "missiles_fired s = 0 \<and> air_to_air_kills s = 0 \<and> missile_types_used s = []" by simp
qed

text \<open>
  C10. A pilot whose aircraft type contains none of the fighter designators ends the
  analysis with no missile fired, no kill and no munition type. The invariant holds
  after \<open>analyze_pilots\<close>, and \<open>estimate_missile_usage\<close> and
  \<open>calculate_kill_estimates\<close> each preserve it on every dictionary with distinct keys.
\<close>

theorem nonfighters_stay_idle:
  "(\<exists>final. analyze_combat_data_with h acmi = Inr final \<and> nonfighters_idle final)
   \<and> (distinct (map fst ps) \<and> nonfighters_idle ps \<longrightarrow> nonfighters_idle (estimate_missile_usage ps ms))
   \<and> (distinct (map fst ps) \<and> nonfighters_idle ps \<longrightarrow>
        (\<exists>ps'. calculate_kill_estimates h ps ra = Inr ps' \<and> nonfighters_idle ps'))"
proof (intro conjI impI)
  have "nonfighters_idle (pilots_after_estimate acmi)"
    unfolding pilots_after_estimate_def
    by (rule nonfighters_idle_estimate[OF pilots_after_analyze_pilots_distinct nonfighters_idle_start])
  from nonfighters_idle_kill[OF pilots_after_estimate_distinct this]
  show "\<exists>final. analyze_combat_data_with h acmi = Inr final \<and> nonfighters_idle final"
    by (simp add: analyze_combat_data_with_def)
next
  assume "distinct (map fst ps) \<and> nonfighters_idle ps"
  then show "nonfighters_idle (estimate_missile_usage ps ms)"
    by (simp add: nonfighters_idle_estimate)
next
  assume "distinct (map fst ps) \<and> nonfighters_idle ps"
  then show "\<exists>ps'. calculate_kill_estimates h ps ra = Inr ps' \<and> nonfighters_idle ps'"
    by (simp add: nonfighters_idle_kill)
qed

theorem nonfighters_stay_idle_witness:
  "(\<exists>final. analyze_combat_data_with hit_rate_literal demo_session = Inr final
       \<and> (''T'', stats_of final ''T'') \<in> set final
       \<and> \<not> is_fighter_aircraft (aircraft_type (stats_of final ''T''))
       \<and> missiles_fired (stats_of final ''T'') = 0
       \<and> air_to_air_kills (stats_of final ''T'') = 0
       \<and> missile_types_used (stats_of final ''T'') = [])
   \<and> distinct (map fst (pilots_after_analyze_pilots demo_session))
   \<and> nonfighters_idle (pilots_after_analyze_pilots demo_session)
   \<and> nonfighters_idle (estimate_missile_usage (pilots_after_analyze_pilots demo_session) (a2a_missiles_of demo_session))
   \<and> (\<exists>ps'. calculate_kill_estimates hit_rate_literal (pilots_after_analyze_pilots demo_session)
                (removed_aircraft_of demo_session) = Inr ps' \<and> nonfighters_idle ps')"
proof -
  let ?ps = "pilots_after_analyze_pilots demo_session"
  have d: "distinct (map fst ?ps)" by (rule pilots_after_analyze_pilots_distinct)
  have i: "nonfighters_idle ?ps" by (rule nonfighters_idle_start)
  note t = nonfighters_stay_idle[of hit_rate_literal demo_session ?ps "a2a_missiles_of demo_session"
      "removed_aircraft_of demo_session"]
  from t obtain final where f: "analyze_combat_data_with hit_rate_literal demo_session = Inr final"
    and idle: "nonfighters_idle final" by blast
  have "map fst (projr (analyze_combat_data_with hit_rate_literal demo_session)) = [''A'', ''B'', ''E'', ''F'', ''T'']"
    by code_simp
  with f have "has_key ''T'' final" by (simp add: has_key_def flip: set_map)
  then have m: "(''T'', stats_of final ''T'') \<in> set final"
    by (simp add: stats_of_def has_key_lookup)
  have "\<not> is_fighter_aircraft (aircraft_type (stats_of (projr (analyze_combat_data_with hit_rate_literal demo_session)) ''T''))"
    by code_simp
  with f have nf: "\<not> is_fighter_aircraft (aircraft_type (stats_of final ''T''))" by simp
  from idle m nf have v: "missiles_fired (stats_of final ''T'') = 0 \<and> air_to_air_kills (stats_of final ''T'') = 0
      \<and> missile_types_used (stats_of final ''T'') = []"
    unfolding nonfighters_idle_def by blast
  from t d i have 2: "nonfighters_idle (estimate_missile_usage ?ps (a2a_missiles_of demo_session))"
    and 3: "\<exists>ps'. calculate_kill_estimates hit_rate_literal ?ps (removed_aircraft_of demo_session) = Inr ps' \<and> nonfighters_idle ps'"
    by blast+
  from f m nf v d i 2 3 show ?thesis by blast
qed

section \<open>Properties: munition types\<close>
















section \<open>Properties: munitions still alive\<close>

lemma stores_agree:
  assumes "alive_aircraft_of a = alive_aircraft_of b"
    and "removed_aircraft_of a = removed_aircraft_of b"
    and "a2a_missiles_of a = a2a_missiles_of b"
  shows "analyze_combat_data_with h a = analyze_combat_data_with h b"
  using assms
  by (simp add: analyze_combat_data_with_def pilots_after_estimate_def pilots_after_analyze_pilots_def)

text \<open>
  C9. \<open>analyze_combat_data\<close> takes its munitions from the removed objects only.
  Deleting every munition that is still alive when the recording ends from the store
  leaves the whole result unchanged, for every pilot and so for every coalition total.
\<close>

theorem alive_munitions_ignored:
  "analyze_combat_data_with h (filter (\<lambda>x. \<not> (alive x \<and> is_missile x \<and> \<not> is_plane x)) acmi)
     = analyze_combat_data_with h acmi
   \<and> a2a_missiles_of acmi = filter is_air_to_air_missile (filter is_missile (filter (\<lambda>x. \<not> alive x) acmi))"
proof
  let ?keep = "\<lambda>x. \<not> (alive x \<and> is_missile x \<and> \<not> is_plane x)"
  have 1: "alive_aircraft_of (filter ?keep acmi) = alive_aircraft_of acmi"
    by (auto simp: alive_aircraft_of_def alive_objects_def intro: filter_cong)
  have 2: "removed_aircraft_of (filter ?keep acmi) = removed_aircraft_of acmi"
    by (auto simp: removed_aircraft_of_def removed_objects_def intro: filter_cong)
  have 3: "a2a_missiles_of (filter ?keep acmi) = a2a_missiles_of acmi"
    by (auto simp: a2a_missiles_of_def removed_objects_def intro: filter_cong)
  show "analyze_combat_data_with h (filter ?keep acmi) = analyze_combat_data_with h acmi"
    by (rule stores_agree[OF 1 2 3])
  show "a2a_missiles_of acmi = filter is_air_to_air_missile (filter is_missile (filter (\<lambda>x. \<not> alive x) acmi))"
    by (simp add: a2a_missiles_of_def removed_objects_def)
qed

theorem alive_munitions_ignored_witness:
  "aim9 20 True \<in> set demo_session
   \<and> aim9 20 True \<notin> set (filter (\<lambda>x. \<not> (alive x \<and> is_missile x \<and> \<not> is_plane x)) demo_session)
   \<and> analyze_combat_data_with hit_rate_literal
         (filter (\<lambda>x. \<not> (alive x \<and> is_missile x \<and> \<not> is_plane x)) demo_session)
       = analyze_combat_data_with hit_rate_literal demo_session"
proof -
  have "aim9 20 True \<in> set demo_session" by (simp add: demo_session_def)
  moreover have "aim9 20 True \<notin> set (filter (\<lambda>x. \<not> (alive x \<and> is_missile x \<and> \<not> is_plane x)) demo_session)"
    by (simp add: aim9_def mk_obj_def)
  ultimately show ?thesis
    using alive_munitions_ignored[of hit_rate_literal demo_session] by simp
qed

section \<open>Properties: the hit rate estimate\<close>

lemma shooter_self:
  assumes "(p, s) \<in> set ps" "0 < missiles_fired s"
  shows "coalition_shooters_of ps (coalition s) \<noteq> []"
proof -
  have "filter (\<lambda>(p, s'). coalition s' = coalition s \<and> missiles_fired s' > 0) ps \<noteq> []"
    unfolding filter_empty_conv using assms by blast
  then show ?thesis by (simp add: coalition_shooters_of_def)
qed

lemma after_estimate_fresh:
  "air_to_air_kills (stats_of (pilots_after_estimate acmi) q) = 0"
  "estimated_hit_rate (stats_of (pilots_after_estimate acmi) q) = 0"
proof -
  show "air_to_air_kills (stats_of (pilots_after_estimate acmi) q) = 0"
    unfolding pilots_after_estimate_def
    by (subst estimate_missile_usage_frame) (simp_all add: credit_def after_analyze_pilots_fresh)
  show "estimated_hit_rate (stats_of (pilots_after_estimate acmi) q) = 0"
    unfolding pilots_after_estimate_def
    by (subst estimate_missile_usage_frame) (simp_all add: credit_def after_analyze_pilots_fresh)
qed

lemma final_entry:
  assumes "analyze_combat_data_with h acmi = Inr final" "(p, s') \<in> set final"
  obtains s where "(p, s) \<in> set (pilots_after_estimate acmi)"
    and "s' = kill_entry h (coalition_losses_of (removed_aircraft_of acmi)) (pilots_after_estimate acmi) s"
    and "air_to_air_kills s = 0" and "estimated_hit_rate s = 0"
proof -
  from assms obtain s where s: "(p, s) \<in> set (pilots_after_estimate acmi)"
    and e: "s' = kill_entry h (coalition_losses_of (removed_aircraft_of acmi)) (pilots_after_estimate acmi) s"
    by (auto simp: analyze_combat_data_with_map)
  from s have "stats_of (pilots_after_estimate acmi) p = s"
    by (simp add: stats_of_in pilots_after_estimate_distinct)
  with after_estimate_fresh[of acmi p] have "air_to_air_kills s = 0" "estimated_hit_rate s = 0" by simp_all
  with s e that show ?thesis by blast
qed

text \<open>
  C8, as the code has it. \<open>estimated_hit_rate\<close> is \<open>h\<close> for a pilot who fired and
  whose enemy coalition lost an aircraft; for every other pilot the loop leaves the
  initial \<open>0.0\<close>, since it moves on to the next pilot when \<open>missiles_fired\<close> is 0 and
  again when the enemy losses are 0. The entry is never absent.
\<close>

theorem hit_rate_set_when_losses:
  assumes "analyze_combat_data_with h acmi = Inr final" and "(p, s) \<in> set final"
  shows "estimated_hit_rate s =
         (if 0 < missiles_fired s
             \<and> filter (\<lambda>a. o_coalition a = enemy_of (coalition s)) (removed_aircraft_of acmi) \<noteq> []
          then h else 0)"
proof -
  let ?cl = "coalition_losses_of (removed_aircraft_of acmi)"
  let ?ps = "pilots_after_estimate acmi"
  from assms obtain s0 where m: "(p, s0) \<in> set ?ps" and e: "s = kill_entry h ?cl ?ps s0"
    and z: "estimated_hit_rate s0 = 0"
    by (rule final_entry)
  have el: "dd_int ?cl c = 0 \<longleftrightarrow> filter (\<lambda>a. o_coalition a = c) (removed_aircraft_of acmi) = []" for c
    by (simp add: coalition_losses_count)
  have k: "coalition s = coalition s0" "missiles_fired s = missiles_fired s0"
    by (simp_all add: e kill_entry_keeps)
  show ?thesis
  proof (cases "0 < missiles_fired s0")
    case True
    then have "coalition_shooters_of ?ps (coalition s0) \<noteq> []" using m by (intro shooter_self)
    with True z show ?thesis unfolding k by (simp add: e kill_entry_def Let_def el)
  next
    case False
    with z show ?thesis unfolding k by (simp add: e kill_entry_def Let_def)
  qed
qed

theorem hit_rate_set_when_losses_witness:
  "\<exists>final. analyze_combat_data_with hit_rate_literal demo_session = Inr final
     \<and> (''A'', stats_of final ''A'') \<in> set final
     \<and> 0 < missiles_fired (stats_of final ''A'')
     \<and> filter (\<lambda>a. o_coalition a = enemy_of (coalition (stats_of final ''A''))) (removed_aircraft_of demo_session) \<noteq> []
     \<and> estimated_hit_rate (stats_of final ''A'') = hit_rate_literal"
proof -
  obtain final where f: "analyze_combat_data_with hit_rate_literal demo_session = Inr final"
    by (simp add: analyze_combat_data_with_map)
  have "map fst (projr (analyze_combat_data_with hit_rate_literal demo_session)) = [''A'', ''B'', ''E'', ''F'', ''T'']"
    by code_simp
  with f have "has_key ''A'' final" by (simp add: has_key_def flip: set_map)
  then have m: "(''A'', stats_of final ''A'') \<in> set final"
    by (simp add: stats_of_def has_key_lookup)
  have "0 < missiles_fired (stats_of (projr (analyze_combat_data_with hit_rate_literal demo_session)) ''A'')"
    by code_simp
  with f have pos: "0 < missiles_fired (stats_of final ''A'')" by simp
  have "filter (\<lambda>a. o_coalition a = enemy_of (coalition (stats_of (projr (analyze_combat_data_with hit_rate_literal demo_session)) ''A'')))
          (removed_aircraft_of demo_session) \<noteq> []"
    by code_simp
  with f have l: "filter (\<lambda>a. o_coalition a = enemy_of (coalition (stats_of final ''A''))) (removed_aircraft_of demo_session) \<noteq> []"
    by simp
  from hit_rate_set_when_losses[OF f m] pos l
  have "estimated_hit_rate (stats_of final ''A'') = hit_rate_literal" by simp
  with f m pos l show ?thesis by blast
qed

text \<open>
  C8, as stated, fails: with no aircraft lost on the other side, the pilot credited with
  three missiles has \<open>estimated_hit_rate = 0\<close>, not \<open>0.3\<close>.
\<close>

theorem hit_rate_counterexample:
  "missiles_fired (stats_of (projr (analyze_combat_data a_first_session)) ''A'') = 3
   \<and> estimated_hit_rate (stats_of (projr (analyze_combat_data a_first_session)) ''A'') = 0
   \<and> hit_rate_literal \<noteq> 0"
  by code_simp

end
